theory Spec2Isabelle
  imports Complex_Main "HOL-Library.AList"
begin

section \<open>The embedder: \<open>embeddings.ts\<close>\<close>

text \<open>
  The module keeps two variables, \<open>extractor\<close> and \<open>loadingPromise\<close>. JavaScript runs
  one task at a time: a call of \<open>getExtractor\<close> runs to its \<open>return\<close> without
  interruption (the body has no \<open>await\<close> of its own), and the rest of the loading
  closure, after \<open>await pipeline(...)\<close>, runs as one later task. The model is a state
  machine with these two kinds of steps; an interleaving of callers is a list of events.

  A promise is an object on the heap. The heap is the list \<open>promises\<close>: a promise is its
  position, and one is allocated by each call of \<open>pipeline(...)\<close>, so the length of the
  list counts the loads that were started.

  The loaded instance is a function from a text to the vector it returns, or to the
  error it throws.
\<close>

type_synonym FeatureExtractionPipeline = "string \<Rightarrow> string + real list"

datatype promise_state = Pending | Resolved FeatureExtractionPipeline | Rejected string

record embedder =
  extractor :: "FeatureExtractionPipeline option"
  loadingPromise :: "nat option"
  promises :: "promise_state list"

definition embedder_init :: embedder where
  "embedder_init = \<lparr>extractor = None, loadingPromise = None, promises = []\<rparr>"

text \<open>What \<open>getExtractor\<close> returns: the instance, or the promise of the load in flight.\<close>

datatype answer = Ready FeatureExtractionPipeline | Awaiting nat

definition getExtractor :: "embedder \<Rightarrow> answer \<times> embedder" where
  "getExtractor m =
     (case extractor m of
        Some ext \<Rightarrow> (Ready ext, m)
      | None \<Rightarrow>
          (case loadingPromise m of
             Some p \<Rightarrow> (Awaiting p, m)
           | None \<Rightarrow>
               (Awaiting (length (promises m)),
                m\<lparr>loadingPromise := Some (length (promises m)),
                   promises := promises m @ [Pending]\<rparr>)))"

text \<open>
  The loading closure resumes when \<open>pipeline(...)\<close> settles. On success it stores the
  instance, clears \<open>loadingPromise\<close> and resolves its promise; on failure the exception
  leaves the closure at the \<open>await\<close>, so its promise is rejected and neither variable is
  written. A promise settles once.
\<close>

definition settle :: "nat \<Rightarrow> string + FeatureExtractionPipeline \<Rightarrow> embedder \<Rightarrow> embedder" where
  "settle p outcome m =
     (if p < length (promises m) then
        (case promises m ! p of
           Pending \<Rightarrow>
             (case outcome of
                Inr ext \<Rightarrow>
                  m\<lparr>extractor := Some ext, loadingPromise := None,
                     promises := (promises m)[p := Resolved ext]\<rparr>
              | Inl err \<Rightarrow> m\<lparr>promises := (promises m)[p := Rejected err]\<rparr>)
         | _ \<Rightarrow> m)
      else m)"

datatype event = Call | Settle nat "string + FeatureExtractionPipeline"

text \<open>A run of the event loop; it collects what each call of \<open>getExtractor\<close> returned.\<close>

fun run_events :: "event list \<Rightarrow> answer list \<times> embedder \<Rightarrow> answer list \<times> embedder" where
  "run_events [] s = s"
| "run_events (Call # evs) (answers, m) =
     (case getExtractor m of (a, m') \<Rightarrow> run_events evs (answers @ [a], m'))"
| "run_events (Settle p outcome # evs) (answers, m) =
     run_events evs (answers, settle p outcome m)"

text \<open>What a caller holding the answer \<open>a\<close> has received in state \<open>m\<close>; \<open>None\<close> while
  its promise is pending.\<close>

definition received :: "embedder \<Rightarrow> answer \<Rightarrow> (string + FeatureExtractionPipeline) option" where
  "received m a =
     (case a of
        Ready ext \<Rightarrow> Some (Inr ext)
      | Awaiting p \<Rightarrow>
          (if p < length (promises m) then
             (case promises m ! p of
                Pending \<Rightarrow> None
              | Resolved ext \<Rightarrow> Some (Inr ext)
              | Rejected err \<Rightarrow> Some (Inl err))
           else None))"

text \<open>
  A caller that awaits the answer continues when the promise has settled. \<open>load\<close> is what
  \<open>pipeline(...)\<close> settles to in this process: a pending promise settles to it before
  the caller continues.
\<close>

definition await_answer ::
  "string + FeatureExtractionPipeline \<Rightarrow> answer \<Rightarrow> embedder \<Rightarrow>
     (string + FeatureExtractionPipeline) \<times> embedder" where
  "await_answer load a m =
     (case a of
        Ready ext \<Rightarrow> (Inr ext, m)
      | Awaiting p \<Rightarrow>
          (case promises m ! p of
             Resolved ext \<Rightarrow> (Inr ext, m)
           | Rejected err \<Rightarrow> (Inl err, m)
           | Pending \<Rightarrow> (load, settle p load m)))"

definition await_getExtractor ::
  "string + FeatureExtractionPipeline \<Rightarrow> embedder \<Rightarrow>
     (string + FeatureExtractionPipeline) \<times> embedder" where
  "await_getExtractor load m = (case getExtractor m of (a, m') \<Rightarrow> await_answer load a m')"

definition preloadModel ::
  "string + FeatureExtractionPipeline \<Rightarrow> embedder \<Rightarrow> (string + unit) \<times> embedder" where
  "preloadModel load m =
     (case await_getExtractor load m of
        (Inl err, m') \<Rightarrow> (Inl err, m')
      | (Inr ext, m') \<Rightarrow> (Inr (), m'))"

definition generateEmbedding ::
  "string + FeatureExtractionPipeline \<Rightarrow> string \<Rightarrow> embedder \<Rightarrow>
     (string + real list) \<times> embedder" where
  "generateEmbedding load text m =
     (case await_getExtractor load m of
        (Inl err, m') \<Rightarrow> (Inl err, m')
      | (Inr ext, m') \<Rightarrow> (ext text, m'))"

text \<open>\<open>Promise.all\<close>: the values in order, or the rejection (here the first in order).\<close>

fun promise_all :: "(string + 'a) list \<Rightarrow> string + 'a list" where
  "promise_all [] = Inr []"
| "promise_all (Inl err # rs) = Inl err"
| "promise_all (Inr v # rs) =
     (case promise_all rs of Inl err \<Rightarrow> Inl err | Inr vs \<Rightarrow> Inr (v # vs))"

definition batchSize :: nat where
  "batchSize = 10"

function embed_batches ::
  "FeatureExtractionPipeline \<Rightarrow> string list \<Rightarrow> nat \<Rightarrow> real list list \<Rightarrow>
     string + real list list" where
  "embed_batches ext texts i results =
     (if i < length texts then
        (case promise_all (map ext (take batchSize (drop i texts))) of
           Inl err \<Rightarrow> Inl err
         | Inr batchResults \<Rightarrow>
             embed_batches ext texts (i + batchSize) (results @ batchResults))
      else Inr results)"
  by pat_completeness auto
termination
  by (relation "measure (\<lambda>(ext, texts, i, results). length texts - i)")
    (auto simp: batchSize_def)

declare embed_batches.simps [simp del]

definition generateEmbeddings ::
  "string + FeatureExtractionPipeline \<Rightarrow> string list \<Rightarrow> embedder \<Rightarrow>
     (string + real list list) \<times> embedder" where
  "generateEmbeddings load texts m =
     (case await_getExtractor load m of
        (Inl err, m') \<Rightarrow> (Inl err, m')
      | (Inr ext, m') \<Rightarrow> (embed_batches ext texts 0 [], m'))"

text \<open>
  White space, for \<open>trim\<close> and \<open>\s\<close>. A character of the model is a code unit below 256;
  among these JavaScript counts as white space the space, tab, line feed, vertical tab,
  form feed, carriage return and the no-break space U+00A0. The white space above U+00FF
  (U+1680, U+2000 to U+200A, U+2028, U+2029, U+202F, U+205F, U+3000, U+FEFF) has no
  character in the model.
\<close>

definition is_space :: "char \<Rightarrow> bool" where
  "is_space c =
     (c \<in> {CHR '' '', CHR 0x09, CHR 0x0A, CHR 0x0B, CHR 0x0C, CHR 0x0D, CHR 0xA0})"

definition trim :: "string \<Rightarrow> string" where
  "trim s = rev (dropWhile is_space (rev (dropWhile is_space s)))"

definition prepareTextForEmbedding :: "string \<Rightarrow> string \<Rightarrow> string" where
  "prepareTextForEmbedding title content = trim (title @ [CHR 0x0A, CHR 0x0A] @ content)"

text \<open>
  The states the module can be in: nothing loaded, one load in flight, loaded, and the
  load failed.
\<close>

definition embedder_ok :: "embedder \<Rightarrow> bool" where
  "embedder_ok m =
     (m = embedder_init \<or>
      m = \<lparr>extractor = None, loadingPromise = Some 0, promises = [Pending]\<rparr> \<or>
      (\<exists>ext. m = \<lparr>extractor = Some ext, loadingPromise = None, promises = [Resolved ext]\<rparr>) \<or>
      (\<exists>err. m = \<lparr>extractor = None, loadingPromise = Some 0, promises = [Rejected err]\<rparr>))"

text \<open>An answer a caller can hold in state \<open>m\<close>: the promise of the first load, or the
  instance that load resolved to.\<close>

definition answer_ok :: "embedder \<Rightarrow> answer \<Rightarrow> bool" where
  "answer_ok m a = ((a = Awaiting 0 \<and> promises m \<noteq> []) \<or>
                    (\<exists>ext. a = Ready ext \<and> promises m = [Resolved ext]))"

text \<open>An instance for the examples: the vector of a text is its length.\<close>

definition echo_pipeline :: FeatureExtractionPipeline where
  "echo_pipeline text = Inr [real (length text)]"

section \<open>Incremental synchronisation: the planning phase of \<open>syncNotes\<close>\<close>

text \<open>
  A JavaScript \<open>Date\<close> compares through its time value, a number of milliseconds that
  is \<open>NaN\<close> for an invalid date. \<open>None\<close> stands for the invalid date; every comparison
  with it is false, as with \<open>NaN\<close>.
\<close>

type_synonym js_date = "int option"

fun date_gt :: "js_date \<Rightarrow> js_date \<Rightarrow> bool" where
  "date_gt (Some a) (Some b) = (b < a)"
| "date_gt _ _ = False"

text \<open>
  One element of \<open>getAllNotesSummary()\<close>: \<open>syncNotes\<close> reads only its \<open>id\<close> and
  its \<open>modification_date\<close> (already turned into a \<open>Date\<close> here); the record scheme
  leaves room for the other fields of a summary.
\<close>

record note_summary =
  summary_id :: string
  summary_modification_date :: js_date

text \<open>One value of the map \<open>getAllNoteMetadata()\<close> returns.\<close>

record note_metadata =
  contentHash :: string
  modificationDate :: js_date

text \<open>
  A JavaScript \<open>Map\<close> iterates in insertion order: it is an association list, read with
  \<open>map_of\<close>.
\<close>

type_synonym 'v js_map = "(string \<times> 'v) list"

text \<open>
  Lines 121 to 145 of \<open>indexer.ts\<close>. \<open>appleNoteIds\<close> is the set of the summaries' ids;
  the first loop collects the stored ids that are not in it, the second loop the summaries
  that are new or whose date is newer than the stored one.
\<close>

definition appleNoteIds :: "'a note_summary_scheme list \<Rightarrow> string set" where
  "appleNoteIds appleSummaries = set (map summary_id appleSummaries)"

definition notesToDelete ::
  "'a note_summary_scheme list \<Rightarrow> note_metadata js_map \<Rightarrow> string list" where
  "notesToDelete appleSummaries existingMetadata =
     [dbNoteId. (dbNoteId, _) \<leftarrow> existingMetadata, dbNoteId \<notin> appleNoteIds appleSummaries]"

definition needs_update :: "note_metadata js_map \<Rightarrow> 'a note_summary_scheme \<Rightarrow> bool" where
  "needs_update existingMetadata summary =
     (case map_of existingMetadata (summary_id summary) of
        None \<Rightarrow> True
      | Some existing \<Rightarrow>
          date_gt (summary_modification_date summary) (modificationDate existing))"

definition notesToUpdate ::
  "'a note_summary_scheme list \<Rightarrow> note_metadata js_map \<Rightarrow> string list" where
  "notesToUpdate appleSummaries existingMetadata =
     map summary_id (filter (needs_update existingMetadata) appleSummaries)"



section \<open>The batch indexer: \<open>indexer.ts\<close>\<close>

definition BATCH_SIZE :: nat where
  "BATCH_SIZE = 50"

text \<open>A note as the document source returns it, its dates already parsed.\<close>

record AppleNoteDetails =
  note_id :: string
  note_title :: string
  note_content :: string
  note_folder :: string
  note_creation_date :: js_date
  note_modification_date :: js_date

text \<open>The argument of \<open>upsertNote\<close>.\<close>

record note_row =
  apple_note_id :: string
  row_title :: string
  row_content :: string
  html_content :: string
  folder_path :: string
  creation_date :: js_date
  modification_date :: js_date
  content_hash :: string
  embedding :: "real list"

record IndexingJob =
  job_id :: nat
  totalCount :: nat
  processedCount :: nat
  failedCount :: nat
  job_status :: string

record IndexingResult =
  jobId :: nat
  totalNotes :: nat
  processedNotes :: nat
  failedNotes :: nat
  status :: string

text \<open>
  Modelled from the spec: the job tracker of \<open>db.js\<close>, which is not among the sources
  (\<open>create(totalCount)\<close> gives a fresh job id, \<open>updateProgress\<close> and \<open>complete\<close> write
  the job's row). \<open>progress_log\<close> keeps the row after each write: these are the points at
  which a status query can observe the job.
\<close>

record job_tracker =
  job_rows :: "nat \<rightharpoonup> IndexingJob"
  next_job_id :: nat
  progress_log :: "IndexingJob list"

definition write_job :: "IndexingJob \<Rightarrow> job_tracker \<Rightarrow> job_tracker" where
  "write_job row tr =
     tr\<lparr>job_rows := (job_rows tr)(job_id row \<mapsto> row), progress_log := progress_log tr @ [row]\<rparr>"

definition createIndexingJob :: "nat \<Rightarrow> job_tracker \<Rightarrow> nat \<times> job_tracker" where
  "createIndexingJob total_notes tr =
     (next_job_id tr,
      write_job \<lparr>job_id = next_job_id tr, totalCount = total_notes, processedCount = 0,
                 failedCount = 0, job_status = ''running''\<rparr>
        (tr\<lparr>next_job_id := Suc (next_job_id tr)\<rparr>))"

definition updateJobProgress :: "nat \<Rightarrow> nat \<Rightarrow> nat \<Rightarrow> job_tracker \<Rightarrow> job_tracker" where
  "updateJobProgress jid processed failed tr =
     (case job_rows tr jid of
        None \<Rightarrow> tr
      | Some row \<Rightarrow> write_job (row\<lparr>processedCount := processed, failedCount := failed\<rparr>) tr)"

definition completeJob :: "nat \<Rightarrow> string \<Rightarrow> job_tracker \<Rightarrow> job_tracker" where
  "completeJob jid st tr =
     (case job_rows tr jid of
        None \<Rightarrow> tr
      | Some row \<Rightarrow> write_job (row\<lparr>job_status := st\<rparr>) tr)"

text \<open>
  The collaborators of the indexer that are not among the sources, as parameters: the
  document source, the two listings of the planning phase, the content hash, the
  \<open>turndown\<close> library (\<open>None\<close> when it throws), what \<open>pipeline(...)\<close> settles to, and
  the error of \<open>upsertNote\<close> on a row, if any. A per-document failure is a value of one of
  these functions at that document.
\<close>

record collaborators =
  getAllNotesWithDetails :: "string + AppleNoteDetails list"
  getAllNotesSummary :: "string + note_summary list"
  getAllNoteMetadata :: "string + note_metadata js_map"
  getNoteDetailsById :: "string \<Rightarrow> string + AppleNoteDetails option"
  generateContentHash :: "string \<Rightarrow> string"
  turndown :: "string \<Rightarrow> string option"
  pipeline_load :: "string + FeatureExtractionPipeline"
  upsert_error :: "note_row \<Rightarrow> string option"

text \<open>The state a run works on: the embedder module, the stored notes by
  \<open>apple_note_id\<close>, and the job tracker.\<close>

record indexer_state =
  model :: embedder
  notes_table :: "string \<rightharpoonup> note_row"
  tracker :: job_tracker

text \<open>
  The fallback of \<open>htmlToMarkdown\<close>: every tag \<open><[^>]*>\<close> becomes a space, every run of
  white space becomes one space, and the result is trimmed.
\<close>

function replace_tags :: "string \<Rightarrow> string" where
  "replace_tags [] = []"
| "replace_tags (c # cs) =
     (if c = CHR ''<'' \<and> CHR ''>'' \<in> set cs
      then CHR '' '' # replace_tags (drop 1 (dropWhile (\<lambda>x. x \<noteq> CHR ''>'') cs))
      else c # replace_tags cs)"
  by pat_completeness auto
termination
  by (relation "measure length")
    (auto simp: less_Suc_eq_le intro: order_trans [OF diff_le_self length_dropWhile_le])

function replace_spaces :: "string \<Rightarrow> string" where
  "replace_spaces [] = []"
| "replace_spaces (c # cs) =
     (if is_space c then CHR '' '' # replace_spaces (dropWhile is_space cs)
      else c # replace_spaces cs)"
  by pat_completeness auto
termination
  by (relation "measure length") (auto simp: less_Suc_eq_le length_dropWhile_le)

definition htmlToMarkdown :: "collaborators \<Rightarrow> string \<Rightarrow> string" where
  "htmlToMarkdown env html =
     (case turndown env html of
        Some markdown \<Rightarrow> markdown
      | None \<Rightarrow> trim (replace_spaces (replace_tags html)))"

text \<open>Modelled from the spec: \<open>upsert(document)\<close> and \<open>delete_by_ids(ids)\<close> of the index
  store (\<open>db.js\<close>); a write can fail for a document.\<close>

definition upsertNote ::
  "collaborators \<Rightarrow> note_row \<Rightarrow> indexer_state \<Rightarrow> (string + unit) \<times> indexer_state" where
  "upsertNote env row st =
     (case upsert_error env row of
        Some err \<Rightarrow> (Inl err, st)
      | None \<Rightarrow> (Inr (), st\<lparr>notes_table := (notes_table st)(apple_note_id row \<mapsto> row)\<rparr>))"

definition deleteNotesByAppleIds :: "string list \<Rightarrow> indexer_state \<Rightarrow> indexer_state" where
  "deleteNotesByAppleIds ids st = st\<lparr>notes_table := notes_table st |` (- set ids)\<rparr>"

definition processNote ::
  "collaborators \<Rightarrow> AppleNoteDetails \<Rightarrow> indexer_state \<Rightarrow> (string + unit) \<times> indexer_state" where
  "processNote env note st =
     (let markdownContent = htmlToMarkdown env (note_content note);
          contentHash = generateContentHash env (note_content note);
          textForEmbedding = prepareTextForEmbedding (note_title note) markdownContent
      in case generateEmbedding (pipeline_load env) textForEmbedding (model st) of
           (Inl err, m) \<Rightarrow> (Inl err, st\<lparr>model := m\<rparr>)
         | (Inr vec, m) \<Rightarrow>
             upsertNote env
               \<lparr>apple_note_id = note_id note, row_title = note_title note,
                row_content = markdownContent, html_content = note_content note,
                folder_path = note_folder note, creation_date = note_creation_date note,
                modification_date = note_modification_date note,
                content_hash = contentHash, embedding = vec\<rparr>
               (st\<lparr>model := m\<rparr>))"

text \<open>
  \<open>Promise.allSettled\<close> over the closures of a batch: every closure runs, and each gives
  one result, fulfilled (\<open>Inr\<close>) or rejected with a reason (\<open>Inl\<close>). The closures are run
  here one after the other, in the order of the batch.
\<close>

fun allSettled ::
  "('a \<Rightarrow> 's \<Rightarrow> (string + unit) \<times> 's) \<Rightarrow> 'a list \<Rightarrow> 's \<Rightarrow> (string + unit) list \<times> 's" where
  "allSettled closure [] st = ([], st)"
| "allSettled closure (x # xs) st =
     (case closure x st of
        (r, st1) \<Rightarrow> (case allSettled closure xs st1 of (rs, st2) \<Rightarrow> (r # rs, st2)))"

text \<open>The loop over \<open>batchResults\<close> that counts successes and failures.\<close>

fun count_results :: "(string + unit) list \<Rightarrow> nat \<times> nat \<Rightarrow> nat \<times> nat" where
  "count_results [] (processed, failed) = (processed, failed)"
| "count_results (Inr u # rs) (processed, failed) =
     count_results rs (processed + 1, failed)"
| "count_results (Inl reason # rs) (processed, failed) =
     count_results rs (processed, failed + 1)"

text \<open>
  The batch loop, lines 65 to 86 and 171 to 196: the two loops differ in the closure
  only, which is a parameter here.
\<close>

function index_batches ::
  "('a \<Rightarrow> indexer_state \<Rightarrow> (string + unit) \<times> indexer_state) \<Rightarrow> 'a list \<Rightarrow> nat \<Rightarrow> nat \<Rightarrow>
     nat \<times> nat \<Rightarrow> indexer_state \<Rightarrow> (nat \<times> nat) \<times> indexer_state" where
  "index_batches closure items jid i (processed, failed) st =
     (if i < length items then
        (case allSettled closure (take BATCH_SIZE (drop i items)) st of
           (batchResults, st1) \<Rightarrow>
             (case count_results batchResults (processed, failed) of
                (p, f) \<Rightarrow>
                  index_batches closure items jid (i + BATCH_SIZE) (p, f)
                    (st1\<lparr>tracker := updateJobProgress jid p f (tracker st1)\<rparr>)))
      else ((processed, failed), st))"
  by pat_completeness auto
termination
  by (relation "measure (\<lambda>(closure, items, jid, i, counts, st). length items - i)")
    (auto simp: BATCH_SIZE_def)

declare index_batches.simps [simp del]

definition startFullIndexing ::
  "collaborators \<Rightarrow> indexer_state \<Rightarrow> (string + IndexingResult) \<times> indexer_state" where
  "startFullIndexing env st =
     (case getAllNotesWithDetails env of
        Inl err \<Rightarrow> (Inl err, st)
      | Inr notes \<Rightarrow>
          (case createIndexingJob (length notes) (tracker st) of
             (jid, tr) \<Rightarrow>
               (case index_batches (processNote env) notes jid 0 (0, 0) (st\<lparr>tracker := tr\<rparr>) of
                  ((processed, failed), st1) \<Rightarrow>
                    (let st_text = (if failed = 0 then ''completed'' else ''completed'')
                     in (Inr \<lparr>jobId = jid, totalNotes = length notes,
                              processedNotes = processed, failedNotes = failed,
                              status = st_text\<rparr>,
                         st1\<lparr>tracker := completeJob jid st_text (tracker st1)\<rparr>)))))"

text \<open>The closure of a sync batch: fetch the note; when the source has it, process it.\<close>

definition sync_note ::
  "collaborators \<Rightarrow> string \<Rightarrow> indexer_state \<Rightarrow> (string + unit) \<times> indexer_state" where
  "sync_note env noteId st =
     (case getNoteDetailsById env noteId of
        Inl err \<Rightarrow> (Inl err, st)
      | Inr None \<Rightarrow> (Inr (), st)
      | Inr (Some details) \<Rightarrow> processNote env details st)"

text \<open>Lines 156 to 162: the removed notes are deleted in one call, counted as processed
  and reported.\<close>

definition delete_removed :: "string list \<Rightarrow> nat \<Rightarrow> indexer_state \<Rightarrow> nat \<times> indexer_state" where
  "delete_removed toDelete jid st =
     (if length toDelete > 0 then
        (case deleteNotesByAppleIds toDelete st of
           st1 \<Rightarrow>
             (length toDelete,
              st1\<lparr>tracker := updateJobProgress jid (length toDelete) 0 (tracker st1)\<rparr>))
      else (0, st))"

text \<open>Lines 164 to 168: the model is loaded before the first batch; the \<open>await\<close> is
  outside the batches, so a rejection leaves \<open>syncNotes\<close>.\<close>

definition preload_if_needed ::
  "collaborators \<Rightarrow> string list \<Rightarrow> indexer_state \<Rightarrow> (string + unit) \<times> indexer_state" where
  "preload_if_needed env toUpdate st =
     (if length toUpdate > 0 then
        (case preloadModel (pipeline_load env) (model st) of
           (r, m) \<Rightarrow> (r, st\<lparr>model := m\<rparr>))
      else (Inr (), st))"

definition syncNotes ::
  "collaborators \<Rightarrow> indexer_state \<Rightarrow> (string + IndexingResult) \<times> indexer_state" where
  "syncNotes env st =
     (case getAllNotesSummary env of
        Inl err \<Rightarrow> (Inl err, st)
      | Inr appleSummaries \<Rightarrow>
          (case getAllNoteMetadata env of
             Inl err \<Rightarrow> (Inl err, st)
           | Inr existingMetadata \<Rightarrow>
               (let toDelete = notesToDelete appleSummaries existingMetadata;
                    toUpdate = notesToUpdate appleSummaries existingMetadata;
                    total_notes = length toUpdate + length toDelete
                in case createIndexingJob total_notes (tracker st) of
                     (jid, tr) \<Rightarrow>
                       (case delete_removed toDelete jid (st\<lparr>tracker := tr\<rparr>) of
                          (processed0, st1) \<Rightarrow>
                            (case preload_if_needed env toUpdate st1 of
                               (Inl err, st2) \<Rightarrow> (Inl err, st2)
                             | (Inr u, st2) \<Rightarrow>
                                 (case index_batches (sync_note env) toUpdate jid 0
                                         (processed0, 0) st2 of
                                    ((processed, failed), st3) \<Rightarrow>
                                      (Inr \<lparr>jobId = jid, totalNotes = total_notes,
                                            processedNotes = processed,
                                            failedNotes = failed,
                                            status = ''completed''\<rparr>,
                                       st3\<lparr>tracker :=
                                             completeJob jid ''completed'' (tracker st3)\<rparr>)))))))"

text \<open>The rows a run wrote to the job tracker, oldest first.\<close>

definition reported :: "indexer_state \<Rightarrow> indexer_state \<Rightarrow> IndexingJob list" where
  "reported st st' = drop (length (progress_log (tracker st))) (progress_log (tracker st'))"

text \<open>The invariant of the job's counters.\<close>

definition counters_ok :: "IndexingJob \<Rightarrow> bool" where
  "counters_ok j = (processedCount j + failedCount j \<le> totalCount j)"

text \<open>
  What an awaited \<open>getExtractor\<close> gives in a state of the embedder, and the relation
  between the state \<open>st0\<close> a run starts in and a later state \<open>s\<close> of the run that the
  proofs maintain: the embedder gives in \<open>s\<close> what it gives in \<open>st0\<close>.
\<close>

definition served ::
  "string + FeatureExtractionPipeline \<Rightarrow> embedder \<Rightarrow> string + FeatureExtractionPipeline" where
  "served load m = fst (await_getExtractor load m)"

definition run_inv :: "collaborators \<Rightarrow> indexer_state \<Rightarrow> indexer_state \<Rightarrow> bool" where
  "run_inv env st0 s =
     (embedder_ok (model st0) \<and> embedder_ok (model s) \<and>
      served (pipeline_load env) (model s) = served (pipeline_load env) (model st0))"

text \<open>The ids a sync closure stores when the note's own pipeline succeeds.\<close>

definition sync_stored :: "collaborators \<Rightarrow> indexer_state \<Rightarrow> string \<Rightarrow> string set" where
  "sync_stored env st0 noteId =
     (case getNoteDetailsById env noteId of
        Inr (Some details) \<Rightarrow>
          (if fst (processNote env details st0) = Inr () then {note_id details} else {})
      | _ \<Rightarrow> {})"

text \<open>
  An example: the source has the notes A, B and D; the store knows B, C and D, and D is
  older there. Writing a note titled \<open>unwritable\<close> fails.
\<close>

definition demo_note :: "string \<Rightarrow> string \<Rightarrow> AppleNoteDetails" where
  "demo_note i t =
     \<lparr>note_id = i, note_title = t, note_content = ''<p>hi</p>'', note_folder = ''Notes'',
      note_creation_date = Some 0, note_modification_date = Some 10\<rparr>"

definition demo_summaries :: "note_summary list" where
  "demo_summaries =
     [\<lparr>summary_id = ''A'', summary_modification_date = Some 10\<rparr>,
      \<lparr>summary_id = ''B'', summary_modification_date = Some 5\<rparr>,
      \<lparr>summary_id = ''D'', summary_modification_date = Some 7\<rparr>]"

definition demo_metadata :: "note_metadata js_map" where
  "demo_metadata =
     [(''B'', \<lparr>contentHash = ''hb'', modificationDate = Some 5\<rparr>),
      (''C'', \<lparr>contentHash = ''hc'', modificationDate = Some 1\<rparr>),
      (''D'', \<lparr>contentHash = ''hd'', modificationDate = Some 3\<rparr>)]"

definition demo_env :: collaborators where
  "demo_env =
     \<lparr>getAllNotesWithDetails =
        Inr [demo_note ''A'' ''unwritable'', demo_note ''B'' ''b'', demo_note ''D'' ''d''],
      getAllNotesSummary = Inr demo_summaries,
      getAllNoteMetadata = Inr demo_metadata,
      getNoteDetailsById =
        (\<lambda>i. if i = ''A'' then Inr (Some (demo_note ''A'' ''unwritable''))
             else if i = ''D'' then Inr (Some (demo_note ''D'' ''d''))
             else Inl ''no such note''),
      generateContentHash = (\<lambda>h. h),
      turndown = (\<lambda>h. None),
      pipeline_load = Inr echo_pipeline,
      upsert_error = (\<lambda>row. if row_title row = ''unwritable'' then Some ''write failed'' else None)\<rparr>"

definition demo_state :: indexer_state where
  "demo_state =
     \<lparr>model = embedder_init, notes_table = Map.empty,
      tracker = \<lparr>job_rows = Map.empty, next_job_id = 1, progress_log = []\<rparr>\<rparr>"

section \<open>Rank-fusion search: \<open>search.ts\<close>\<close>

text \<open>
  Scores are real numbers here: the quotients \<open>1 / (k + idx)\<close> are exact, where
  JavaScript rounds them to doubles and PostgreSQL to its \<open>numeric\<close> scale.

  A \<open>SearchResult\<close> has a title, a content and a score; the record scheme leaves room
  for whatever else a row of \<open>vectorSearch\<close> or \<open>textSearch\<close> carries (an id, say).
\<close>

record SearchResult =
  title :: string
  content :: string
  score :: real

datatype sort_by_value = Relevance | CreationDate | ModificationDate

datatype sort_order_value = Asc | Desc

text \<open>The \<open>options\<close> object; an absent property is \<open>None\<close>.\<close>

record search_options =
  created_before :: "string option"
  created_after :: "string option"
  modified_before :: "string option"
  modified_after :: "string option"
  has_images :: "bool option"
  sort_by :: "sort_by_value option"
  sort_order :: "sort_order_value option"

text \<open>A string property in a condition: absent and the empty string are falsy.\<close>

definition truthy :: "string option \<Rightarrow> bool" where
  "truthy v = (case v of None \<Rightarrow> False | Some s \<Rightarrow> s \<noteq> [])"

text \<open>The condition of lines 22 to 29. A \<open>sort_by\<close> that is present is one of three
  non-empty strings, hence truthy.\<close>

definition use_advanced :: "search_options option \<Rightarrow> bool" where
  "use_advanced options =
     (case options of
        None \<Rightarrow> False
      | Some opts \<Rightarrow>
          truthy (created_before opts) \<or> truthy (created_after opts) \<or>
          truthy (modified_before opts) \<or> truthy (modified_after opts) \<or>
          has_images opts \<noteq> None \<or> sort_by opts \<noteq> None)"

subsection \<open>Strategy A: fusion of the two result lists\<close>

text \<open>\<open>const k = 60\<close>, the parameter of the fusion.\<close>

definition rrf_k :: nat where
  "rrf_k = 60"

definition result_key :: "'a SearchResult_scheme \<Rightarrow> string" where
  "result_key result = title result @ ''::'' @ content result"

text \<open>
  The callback of the two \<open>forEach\<close> loops. \<open>scores\<close> is a \<open>Map\<close>: \<open>AList.update\<close> replaces
  the value of a key where it stands and appends a new key, as \<open>Map.set\<close> does; adding to
  \<open>existing.score\<close> changes the object the map holds for the key.
\<close>

definition accumulate ::
  "SearchResult js_map \<Rightarrow> nat \<times> 'a SearchResult_scheme \<Rightarrow> SearchResult js_map" where
  "accumulate scores p =
     (case p of
        (idx, result) \<Rightarrow>
          (let key = result_key result;
               rrfScore = 1 / real (rrf_k + idx)
           in case map_of scores key of
                Some existing \<Rightarrow>
                  AList.update key (existing\<lparr>score := score existing + rrfScore\<rparr>) scores
              | None \<Rightarrow>
                  AList.update key
                    \<lparr>title = title result, content = content result, score = rrfScore\<rparr>
                    scores))"

definition forEach_accumulate ::
  "'a SearchResult_scheme list \<Rightarrow> SearchResult js_map \<Rightarrow> SearchResult js_map" where
  "forEach_accumulate results scores = foldl accumulate scores (enumerate 0 results)"

definition fused_scores ::
  "'a SearchResult_scheme list \<Rightarrow> 'b SearchResult_scheme list \<Rightarrow> SearchResult js_map" where
  "fused_scores vectorResults textResults =
     forEach_accumulate textResults (forEach_accumulate vectorResults [])"

text \<open>
  \<open>Array.from(scores.values()).sort((a, b) => b.score - a.score).slice(0, limit)\<close>: the
  sort is stable, so entries of equal score stay in the order of the map; \<open>limit\<close> is a
  natural number. Scores are real numbers: the sums are exact, where the doubles of the
  source round every share and every sum, so two entries whose exact scores differ by
  less than that rounding can compare as equal in the source and keep the order of the
  map there.
\<close>

definition sort_by_score :: "SearchResult list \<Rightarrow> SearchResult list" where
  "sort_by_score entries = sort_key (\<lambda>e. - score e) entries"

definition rrf_fusion ::
  "'a SearchResult_scheme list \<Rightarrow> 'b SearchResult_scheme list \<Rightarrow> nat \<Rightarrow> SearchResult list" where
  "rrf_fusion vectorResults textResults limit =
     map (\<lambda>e. \<lparr>title = title e, content = content e, score = score e\<rparr>)
       (take limit (sort_by_score (map snd (fused_scores vectorResults textResults))))"

subsection \<open>Strategy B: the fused query\<close>

text \<open>
  The SQL text of \<open>advancedHybridSearch\<close> is embedded by its meaning on the table
  \<open>notes\<close>. A row of the table, with the columns the query reads:
\<close>

record notes_row =
  col_id :: int
  col_title :: string
  col_content :: string
  col_folder_path :: "string option"
  col_creation_date :: int
  col_modification_date :: int
  col_has_images :: bool
  col_embedding :: "real list option"

text \<open>
  The collaborators of the search: what \<open>pipeline(...)\<close> settles to, the two queries of
  \<open>db.js\<close>, the table, and the operators of the storage engine: the vector distance
  \<open><=>\<close>, the trigram \<open>similarity\<close> and its match operator \<open>%\<close>, and the cast of a
  parameter to a timestamp (\<open>None\<close> when the text is not a timestamp).
\<close>

record 'a search_env =
  model_load :: "string + FeatureExtractionPipeline"
  vectorSearch :: "real list \<Rightarrow> nat \<Rightarrow> string + 'a SearchResult_scheme list"
  textSearch :: "string \<Rightarrow> nat \<Rightarrow> string + 'a SearchResult_scheme list"
  notes_rows :: "notes_row list"
  distance :: "real list \<Rightarrow> real list \<Rightarrow> real"
  similarity :: "string \<Rightarrow> string \<Rightarrow> real"
  trgm_match :: "string \<Rightarrow> string \<Rightarrow> bool"
  to_timestamp :: "string \<Rightarrow> int option"

text \<open>The filter conditions, in the order the code pushes them.\<close>

datatype filter_condition =
  CreationBefore string | CreationAfter string
  | ModificationBefore string | ModificationAfter string
  | HasImages bool

definition filterConditions :: "search_options option \<Rightarrow> filter_condition list" where
  "filterConditions options =
     (case options of
        None \<Rightarrow> []
      | Some opts \<Rightarrow>
          (case created_before opts of
             Some v \<Rightarrow> if v \<noteq> [] then [CreationBefore v] else [] | None \<Rightarrow> []) @
          (case created_after opts of
             Some v \<Rightarrow> if v \<noteq> [] then [CreationAfter v] else [] | None \<Rightarrow> []) @
          (case modified_before opts of
             Some v \<Rightarrow> if v \<noteq> [] then [ModificationBefore v] else [] | None \<Rightarrow> []) @
          (case modified_after opts of
             Some v \<Rightarrow> if v \<noteq> [] then [ModificationAfter v] else [] | None \<Rightarrow> []) @
          (case has_images opts of Some b \<Rightarrow> [HasImages b] | None \<Rightarrow> []))"

text \<open>A condition with its parameter bound: the predicate on a row, or \<open>None\<close> when the
  parameter is not a timestamp and the query fails.\<close>

fun bind_condition ::
  "(string \<Rightarrow> int option) \<Rightarrow> filter_condition \<Rightarrow> (notes_row \<Rightarrow> bool) option" where
  "bind_condition cast (CreationBefore v) =
     map_option (\<lambda>t. (\<lambda>n. col_creation_date n < t)) (cast v)"
| "bind_condition cast (CreationAfter v) =
     map_option (\<lambda>t. (\<lambda>n. col_creation_date n > t)) (cast v)"
| "bind_condition cast (ModificationBefore v) =
     map_option (\<lambda>t. (\<lambda>n. col_modification_date n < t)) (cast v)"
| "bind_condition cast (ModificationAfter v) =
     map_option (\<lambda>t. (\<lambda>n. col_modification_date n > t)) (cast v)"
| "bind_condition cast (HasImages b) = Some (\<lambda>n. col_has_images n = b)"

fun bind_filters ::
  "(string \<Rightarrow> int option) \<Rightarrow> filter_condition list \<Rightarrow> (notes_row \<Rightarrow> bool) option" where
  "bind_filters cast [] = Some (\<lambda>n. True)"
| "bind_filters cast (c # cs) =
     (case bind_condition cast c of
        None \<Rightarrow> None
      | Some p \<Rightarrow>
          (case bind_filters cast cs of
             None \<Rightarrow> None
           | Some q \<Rightarrow> Some (\<lambda>n. p n \<and> q n)))"

text \<open>\<open>ORDER BY\<close> of the final \<open>SELECT\<close>, lines 165 to 174.\<close>

datatype order_by = OrderByScoreDesc | OrderByCreation sort_order_value
  | OrderByModification sort_order_value

definition finalOrderBy :: "search_options option \<Rightarrow> order_by" where
  "finalOrderBy options =
     (let sortBy = (case options of
                      None \<Rightarrow> Relevance
                    | Some opts \<Rightarrow> (case sort_by opts of None \<Rightarrow> Relevance | Some s \<Rightarrow> s));
          sortOrder = (case options of
                         None \<Rightarrow> Desc
                       | Some opts \<Rightarrow> (case sort_order opts of None \<Rightarrow> Desc | Some d \<Rightarrow> d))
      in if sortBy = CreationDate then OrderByCreation sortOrder
         else if sortBy = ModificationDate then OrderByModification sortOrder
         else OrderByScoreDesc)"

text \<open>
  \<open>ROW_NUMBER() OVER (ORDER BY ...)\<close> numbers the rows from 1 in the order of the sort. The
  sorts are stable sorts of the table here; SQL leaves the order of ties open.
\<close>

definition row_number :: "'a list \<Rightarrow> ('a \<times> nat) list" where
  "row_number rows = zip rows [1..<Suc (length rows)]"

definition folder_matches :: "string option \<Rightarrow> notes_row \<Rightarrow> bool" where
  "folder_matches folder n =
     (case folder of None \<Rightarrow> True | Some f \<Rightarrow> col_folder_path n = Some f)"

definition vector_search ::
  "'a search_env \<Rightarrow> real list \<Rightarrow> string option \<Rightarrow> (notes_row \<Rightarrow> bool) \<Rightarrow>
     (notes_row \<times> nat) list" where
  "vector_search env queryEmbedding folder filters =
     take 50 (row_number
       (sort_key
          (\<lambda>n. case col_embedding n of Some e \<Rightarrow> distance env e queryEmbedding | None \<Rightarrow> 0)
          (filter (\<lambda>n. col_embedding n \<noteq> None \<and> folder_matches folder n \<and> filters n)
             (notes_rows env))))"

definition text_search ::
  "'a search_env \<Rightarrow> string \<Rightarrow> string option \<Rightarrow> (notes_row \<Rightarrow> bool) \<Rightarrow>
     (notes_row \<times> nat) list" where
  "text_search env query folder filters =
     take 50 (row_number
       (sort_key
          (\<lambda>n. - (similarity env (col_title n) query + similarity env (col_content n) query))
          (filter (\<lambda>n. (trgm_match env (col_title n) query \<or>
                         trgm_match env (col_content n) query) \<and>
                        folder_matches folder n \<and> filters n)
             (notes_rows env))))"

text \<open>\<open>FULL OUTER JOIN ... ON v.id = t.id\<close>: the pairs with equal ids, the rows of the
  left side without a partner, and the rows of the right side without a partner.\<close>

datatype ('v, 't) joined = Both 'v 't | LeftOnly 'v | RightOnly 't

definition full_outer_join ::
  "(notes_row \<times> nat) list \<Rightarrow> (notes_row \<times> nat) list \<Rightarrow>
     (notes_row \<times> nat, notes_row \<times> nat) joined list" where
  "full_outer_join vs ts =
     concat (map (\<lambda>v. case filter (\<lambda>t. col_id (fst t) = col_id (fst v)) ts of
                          [] \<Rightarrow> [LeftOnly v]
                        | ms \<Rightarrow> map (Both v) ms) vs) @
     map RightOnly (filter (\<lambda>t. col_id (fst t) \<notin> set (map (\<lambda>v. col_id (fst v)) vs)) ts)"

record fused_row =
  out_id :: int
  out_title :: string
  out_content :: string
  out_creation_date :: int
  out_modification_date :: int
  rrf_score :: real

text \<open>Line 205: \<open>(1.0 / (60 + COALESCE(v.rank, 9999))) + (1.0 / (60 + COALESCE(t.rank, 9999)))\<close>.\<close>

definition coalesce :: "'a option \<Rightarrow> 'a \<Rightarrow> 'a" where
  "coalesce v d = (case v of Some x \<Rightarrow> x | None \<Rightarrow> d)"

definition sql_rrf_score :: "nat option \<Rightarrow> nat option \<Rightarrow> real" where
  "sql_rrf_score v_rank t_rank =
     1 / real (60 + coalesce v_rank 9999) + 1 / real (60 + coalesce t_rank 9999)"

definition of_note :: "notes_row \<Rightarrow> real \<Rightarrow> fused_row" where
  "of_note n s =
     \<lparr>out_id = col_id n, out_title = col_title n, out_content = col_content n,
      out_creation_date = col_creation_date n,
      out_modification_date = col_modification_date n, rrf_score = s\<rparr>"

fun select_row :: "(notes_row \<times> nat, notes_row \<times> nat) joined \<Rightarrow> fused_row" where
  "select_row (Both (v, v_rank) (t, t_rank)) = of_note v (sql_rrf_score (Some v_rank) (Some t_rank))"
| "select_row (LeftOnly (v, v_rank)) = of_note v (sql_rrf_score (Some v_rank) None)"
| "select_row (RightOnly (t, t_rank)) = of_note t (sql_rrf_score None (Some t_rank))"

fun apply_order :: "order_by \<Rightarrow> fused_row list \<Rightarrow> fused_row list" where
  "apply_order OrderByScoreDesc rows = sort_key (\<lambda>r. - rrf_score r) rows"
| "apply_order (OrderByCreation Asc) rows = sort_key out_creation_date rows"
| "apply_order (OrderByCreation Desc) rows = sort_key (\<lambda>r. - out_creation_date r) rows"
| "apply_order (OrderByModification Asc) rows = sort_key out_modification_date rows"
| "apply_order (OrderByModification Desc) rows = sort_key (\<lambda>r. - out_modification_date r) rows"

text \<open>The rows the query returns, or the error of a parameter that is not a timestamp.\<close>

definition fused_query ::
  "'a search_env \<Rightarrow> real list \<Rightarrow> string \<Rightarrow> nat \<Rightarrow> string option \<Rightarrow> search_options option \<Rightarrow>
     string + fused_row list" where
  "fused_query env queryEmbedding query limit folderPath options =
     (let folder = (case folderPath of
                      None \<Rightarrow> None
                    | Some f \<Rightarrow> if f = [] then None else Some f)
      in case bind_filters (to_timestamp env) (filterConditions options) of
           None \<Rightarrow> Inl ''invalid input syntax for type timestamp''
         | Some filters \<Rightarrow>
             Inr (take limit
                   (apply_order (finalOrderBy options)
                      (map select_row
                         (full_outer_join
                            (vector_search env queryEmbedding folder filters)
                            (text_search env query folder filters))))))"

definition advancedHybridSearch ::
  "'a search_env \<Rightarrow> string \<Rightarrow> nat \<Rightarrow> string option \<Rightarrow> search_options option \<Rightarrow> embedder \<Rightarrow>
     (string + SearchResult list) \<times> embedder" where
  "advancedHybridSearch env query limit folderPath options m =
     (case generateEmbedding (model_load env) query m of
        (Inl err, m') \<Rightarrow> (Inl err, m')
      | (Inr queryEmbedding, m') \<Rightarrow>
          (case fused_query env queryEmbedding query limit folderPath options of
             Inl err \<Rightarrow> (Inl err, m')
           | Inr rows \<Rightarrow>
               (Inr (map (\<lambda>row. \<lparr>title = out_title row, content = out_content row,
                                  score = rrf_score row\<rparr>) rows),
                m')))"

text \<open>Lines 33 to 85 of \<open>hybridSearch\<close>, and the function with its dispatch.\<close>

definition simple_hybrid_search ::
  "'a search_env \<Rightarrow> string \<Rightarrow> nat \<Rightarrow> embedder \<Rightarrow> (string + SearchResult list) \<times> embedder" where
  "simple_hybrid_search env query limit m =
     (case generateEmbedding (model_load env) query m of
        (Inl err, m') \<Rightarrow> (Inl err, m')
      | (Inr queryEmbedding, m') \<Rightarrow>
          (case vectorSearch env queryEmbedding limit of
             Inl err \<Rightarrow> (Inl err, m')
           | Inr vectorResults \<Rightarrow>
               (case textSearch env query limit of
                  Inl err \<Rightarrow> (Inl err, m')
                | Inr textResults \<Rightarrow>
                    (Inr (rrf_fusion vectorResults textResults limit), m'))))"

definition hybridSearch ::
  "'a search_env \<Rightarrow> string \<Rightarrow> nat \<Rightarrow> search_options option \<Rightarrow> embedder \<Rightarrow>
     (string + SearchResult list) \<times> embedder" where
  "hybridSearch env query limit options m =
     (if use_advanced options then advancedHybridSearch env query limit None options m
      else simple_hybrid_search env query limit m)"

text \<open>
  What one ranking adds to the score of a key: the sum of \<open>1 / (k + idx)\<close> over the
  positions \<open>idx\<close> (counted from \<open>n\<close>) at which the ranking has a result with that key.
\<close>

definition contribution :: "nat \<Rightarrow> 'a SearchResult_scheme list \<Rightarrow> string \<Rightarrow> real" where
  "contribution n results key =
     sum_list (map (\<lambda>p. 1 / real (rrf_k + fst p))
                 (filter (\<lambda>p. result_key (snd p) = key) (enumerate n results)))"

text \<open>The score a map of scores holds for a key, 0 when it has none.\<close>

definition score_at :: "SearchResult js_map \<Rightarrow> string \<Rightarrow> real" where
  "score_at scores key = (case map_of scores key of Some e \<Rightarrow> score e | None \<Rightarrow> 0)"

text \<open>A map of scores whose entries stand under their own keys.\<close>

definition keyed :: "SearchResult js_map \<Rightarrow> bool" where
  "keyed scores = (distinct (map fst scores) \<and> list_all (\<lambda>p. result_key (snd p) = fst p) scores)"

text \<open>Examples: a result with the given title, and a result that also carries the id of
  the stored note it comes from.\<close>

definition doc :: "string \<Rightarrow> SearchResult" where
  "doc t = \<lparr>title = t, content = ''body'', score = 0\<rparr>"

record stored_result = SearchResult +
  note_ref :: int

definition stored_doc :: "int \<Rightarrow> string \<Rightarrow> string \<Rightarrow> stored_result" where
  "stored_doc i t c = \<lparr>title = t, content = c, score = 0, note_ref = i\<rparr>"

text \<open>
  The condition of the dispatch as the specification words it: a date filter, an image
  filter, or a sort other than the default is requested. The default sort is by
  relevance.
\<close>

definition requests_filter_or_other_sort :: "search_options option \<Rightarrow> bool" where
  "requests_filter_or_other_sort options =
     (case options of
        None \<Rightarrow> False
      | Some opts \<Rightarrow>
          truthy (created_before opts) \<or> truthy (created_after opts) \<or>
          truthy (modified_before opts) \<or> truthy (modified_after opts) \<or>
          has_images opts \<noteq> None \<or>
          sort_by opts = Some CreationDate \<or> sort_by opts = Some ModificationDate)"

text \<open>
  An example store with two notes. D is the nearest to every query vector and the only
  note that matches a query text; E is older than D.
\<close>

definition no_options :: search_options where
  "no_options =
     \<lparr>created_before = None, created_after = None, modified_before = None,
      modified_after = None, has_images = None, sort_by = None, sort_order = None\<rparr>"

definition demo_notes :: "notes_row list" where
  "demo_notes =
     [\<lparr>col_id = 1, col_title = ''D'', col_content = ''d'', col_folder_path = None,
       col_creation_date = 200, col_modification_date = 300, col_has_images = False,
       col_embedding = Some [1]\<rparr>,
      \<lparr>col_id = 2, col_title = ''E'', col_content = ''e'', col_folder_path = None,
       col_creation_date = 100, col_modification_date = 400, col_has_images = True,
       col_embedding = Some [0]\<rparr>]"

definition demo_search_env :: "unit search_env" where
  "demo_search_env =
     \<lparr>model_load = Inr echo_pipeline,
      vectorSearch =
        (\<lambda>queryEmbedding limit.
           Inr (take limit [\<lparr>title = ''D'', content = ''d'', score = 1\<rparr>,
                            \<lparr>title = ''E'', content = ''e'', score = 0\<rparr>])),
      textSearch =
        (\<lambda>query limit. Inr (take limit [\<lparr>title = ''D'', content = ''d'', score = 1\<rparr>])),
      notes_rows = demo_notes,
      distance = (\<lambda>e queryEmbedding. if e = [1] then 0 else 1),
      similarity = (\<lambda>s query. if s = ''D'' then 1 else 0),
      trgm_match = (\<lambda>s query. s = ''D''),
      to_timestamp = (\<lambda>s. if s = ''2024-01-01'' then Some 150 else None)\<rparr>"

text \<open>The same collaborators, with results that carry the ids of three stored notes; two
  of the notes have the same title and content.\<close>

definition demo_stored_env :: "unit stored_result_ext search_env" where
  "demo_stored_env =
     \<lparr>model_load = Inr echo_pipeline,
      vectorSearch =
        (\<lambda>queryEmbedding limit.
           Inr (take limit [stored_doc 1 ''Shopping'' ''milk'', stored_doc 2 ''Todo'' ''call''])),
      textSearch = (\<lambda>query limit. Inr (take limit [stored_doc 3 ''Shopping'' ''milk''])),
      notes_rows = demo_notes,
      distance = (\<lambda>e queryEmbedding. if e = [1] then 0 else 1),
      similarity = (\<lambda>s query. if s = ''D'' then 1 else 0),
      trgm_match = (\<lambda>s query. s = ''D''),
      to_timestamp = (\<lambda>s. if s = ''2024-01-01'' then Some 150 else None)\<rparr>"

section \<open>Theorems\<close>

subsection \<open>The embedder\<close>

lemma embedder_ok_init: "embedder_ok embedder_init"
  by (simp add: embedder_ok_def)

lemma embedder_ok_getExtractor: "embedder_ok m \<Longrightarrow> getExtractor m = (a, m') \<Longrightarrow> embedder_ok m'"
  by (auto simp: embedder_ok_def getExtractor_def embedder_init_def split: option.splits)

lemma embedder_ok_settle: "embedder_ok m \<Longrightarrow> embedder_ok (settle p outcome m)"
  by (auto simp: embedder_ok_def settle_def embedder_init_def split: sum.splits)

lemma answer_ok_getExtractor_new:
  "embedder_ok m \<Longrightarrow> getExtractor m = (a, m') \<Longrightarrow> answer_ok m' a"
  by (auto simp: embedder_ok_def getExtractor_def embedder_init_def answer_ok_def split: option.splits)

lemma answer_ok_getExtractor_old:
  "embedder_ok m \<Longrightarrow> getExtractor m = (a, m') \<Longrightarrow> answer_ok m b \<Longrightarrow> answer_ok m' b"
  by (auto simp: embedder_ok_def getExtractor_def embedder_init_def answer_ok_def split: option.splits)

lemma answer_ok_settle:
  "embedder_ok m \<Longrightarrow> answer_ok m b \<Longrightarrow> answer_ok (settle p outcome m) b"
  by (auto simp: embedder_ok_def settle_def embedder_init_def answer_ok_def split: sum.splits)

lemma run_events_inv:
  "embedder_ok m \<Longrightarrow> \<forall>a\<in>set answers. answer_ok m a \<Longrightarrow> run_events evs (answers, m) = (answers', m') \<Longrightarrow>
     embedder_ok m' \<and> (\<forall>a\<in>set answers'. answer_ok m' a)"
proof (induction evs arbitrary: answers m)
  case Nil
  then show ?case by simp
next
  case (Cons ev evs)
  show ?case
  proof (cases ev)
    case Call
    obtain a m1 where g: "getExtractor m = (a, m1)" by (cases "getExtractor m")
    have "embedder_ok m1" using Cons.prems(1) g by (rule embedder_ok_getExtractor)
    moreover have "\<forall>b\<in>set (answers @ [a]). answer_ok m1 b"
      using Cons.prems(1,2) g answer_ok_getExtractor_new answer_ok_getExtractor_old by auto
    moreover have "run_events evs (answers @ [a], m1) = (answers', m')"
      using Cons.prems(3) Call g by simp
    ultimately show ?thesis by (rule Cons.IH)
  next
    case (Settle p outcome)
    have "embedder_ok (settle p outcome m)" using Cons.prems(1) by (rule embedder_ok_settle)
    moreover have "\<forall>b\<in>set answers. answer_ok (settle p outcome m) b"
      using Cons.prems(1,2) answer_ok_settle by auto
    moreover have "run_events evs (answers, settle p outcome m) = (answers', m')"
      using Cons.prems(3) Settle by simp
    ultimately show ?thesis by (rule Cons.IH)
  qed
qed

lemma embedder_ok_loads: "embedder_ok m \<Longrightarrow> length (promises m) \<le> 1"
  by (auto simp: embedder_ok_def embedder_init_def)

lemma answer_ok_received:
  "embedder_ok m \<Longrightarrow> answer_ok m a \<Longrightarrow> received m a = received m (Awaiting 0)"
  by (auto simp: embedder_ok_def embedder_init_def answer_ok_def received_def)

text \<open>
  C8. For every interleaving of calls of \<open>getExtractor\<close> (also through \<open>preloadModel\<close>
  and \<open>generateEmbedding\<close>) with the settling of loads, starting from the fresh module:
  at most one load is ever started; every caller holds the promise of that one load or the
  instance it resolved to; and all callers receive the same outcome.
\<close>

theorem single_flight_load:
  assumes "run_events evs ([], embedder_init) = (answers, m)"
  shows "length (promises m) \<le> 1 \<and>
         (\<forall>a\<in>set answers. a = Awaiting 0 \<or> (\<exists>ext. a = Ready ext \<and> promises m = [Resolved ext])) \<and>
         (\<forall>a\<in>set answers. received m a = received m (Awaiting 0))"
proof -
  have inv: "embedder_ok m \<and> (\<forall>a\<in>set answers. answer_ok m a)"
    using run_events_inv [OF embedder_ok_init _ assms] by simp
  then show ?thesis
    using embedder_ok_loads answer_ok_received by (auto simp: answer_ok_def)
qed

theorem single_flight_load_witness:
  "run_events [Call, Call, Settle 0 (Inr echo_pipeline), Call] ([], embedder_init) =
     ([Awaiting 0, Awaiting 0, Ready echo_pipeline],
      \<lparr>extractor = Some echo_pipeline, loadingPromise = None, promises = [Resolved echo_pipeline]\<rparr>) \<and>
   received \<lparr>extractor = Some echo_pipeline, loadingPromise = None, promises = [Resolved echo_pipeline]\<rparr>
      (Awaiting 0) = Some (Inr echo_pipeline)"
proof -
  have r: "run_events [Call, Call, Settle 0 (Inr echo_pipeline), Call] ([], embedder_init) =
     ([Awaiting 0, Awaiting 0, Ready echo_pipeline],
      \<lparr>extractor = Some echo_pipeline, loadingPromise = None, promises = [Resolved echo_pipeline]\<rparr>)"
    by (simp add: getExtractor_def settle_def embedder_init_def)
  show ?thesis
    using single_flight_load [OF r] r by (simp add: received_def)
qed


lemma embedder_ok_rejected:
  "embedder_ok m \<Longrightarrow> Rejected err \<in> set (promises m) \<Longrightarrow>
     m = \<lparr>extractor = None, loadingPromise = Some 0, promises = [Rejected err]\<rparr>"
  by (auto simp: embedder_ok_def embedder_init_def)

lemma getExtractor_failed:
  "getExtractor \<lparr>extractor = None, loadingPromise = Some 0, promises = [Rejected err]\<rparr> =
     (Awaiting 0, \<lparr>extractor = None, loadingPromise = Some 0, promises = [Rejected err]\<rparr>)"
  by (simp add: getExtractor_def)

lemma settle_failed:
  "settle p outcome \<lparr>extractor = None, loadingPromise = Some 0, promises = [Rejected err]\<rparr> =
     \<lparr>extractor = None, loadingPromise = Some 0, promises = [Rejected err]\<rparr>"
  by (cases p) (simp_all add: settle_def)

lemma await_getExtractor_failed:
  "await_getExtractor load \<lparr>extractor = None, loadingPromise = Some 0, promises = [Rejected err]\<rparr> =
     (Inl err, \<lparr>extractor = None, loadingPromise = Some 0, promises = [Rejected err]\<rparr>)"
  by (simp add: await_getExtractor_def getExtractor_failed await_answer_def)

lemma run_events_failed:
  "run_events evs (answers, \<lparr>extractor = None, loadingPromise = Some 0, promises = [Rejected err]\<rparr>) =
     (answers @ replicate (length (filter (\<lambda>ev. ev = Call) evs)) (Awaiting 0),
      \<lparr>extractor = None, loadingPromise = Some 0, promises = [Rejected err]\<rparr>)"
proof (induction evs arbitrary: answers)
  case Nil
  then show ?case by simp
next
  case (Cons ev evs)
  then show ?case
    by (cases ev) (simp_all add: getExtractor_failed settle_failed replicate_append_same)
qed

text \<open>
  C10. If the first load fails, the extractor is never set and the rejected promise stays
  in \<open>loadingPromise\<close>: whatever happens afterwards, the state does not change and no
  load is started again, every later call of \<open>getExtractor\<close> returns the rejected
  promise, and \<open>preloadModel\<close>, \<open>generateEmbedding\<close> and \<open>generateEmbeddings\<close> reject
  with the error of that load, even if a new load would succeed.
\<close>

theorem failed_load_is_permanent:
  assumes "run_events evs ([], embedder_init) = (answers, m)"
    and "Rejected err \<in> set (promises m)"
  shows "extractor m = None \<and> loadingPromise m = Some 0 \<and> promises m = [Rejected err] \<and>
         (\<forall>evs'. run_events evs' (answers, m) =
            (answers @ replicate (length (filter (\<lambda>ev. ev = Call) evs')) (Awaiting 0), m)) \<and>
         received m (Awaiting 0) = Some (Inl err) \<and>
         preloadModel load m = (Inl err, m) \<and>
         generateEmbedding load text m = (Inl err, m) \<and>
         generateEmbeddings load texts m = (Inl err, m)"
proof -
  have "embedder_ok m"
    using run_events_inv [OF embedder_ok_init _ assms(1)] by simp
  then have m: "m = \<lparr>extractor = None, loadingPromise = Some 0, promises = [Rejected err]\<rparr>"
    using assms(2) by (rule embedder_ok_rejected)
  show ?thesis
    unfolding m
    by (simp add: run_events_failed received_def preloadModel_def generateEmbedding_def
        generateEmbeddings_def await_getExtractor_failed)
qed

theorem failed_load_is_permanent_witness:
  "run_events [Call, Settle 0 (Inl ''load failed''), Call] ([], embedder_init) =
     ([Awaiting 0, Awaiting 0],
      \<lparr>extractor = None, loadingPromise = Some 0, promises = [Rejected ''load failed'']\<rparr>) \<and>
   generateEmbedding (Inr echo_pipeline) ''text''
      \<lparr>extractor = None, loadingPromise = Some 0, promises = [Rejected ''load failed'']\<rparr> =
     (Inl ''load failed'',
      \<lparr>extractor = None, loadingPromise = Some 0, promises = [Rejected ''load failed'']\<rparr>) \<and>
   run_events [Call, Settle 0 (Inr echo_pipeline), Call]
     ([Awaiting 0, Awaiting 0],
      \<lparr>extractor = None, loadingPromise = Some 0, promises = [Rejected ''load failed'']\<rparr>) =
     ([Awaiting 0, Awaiting 0, Awaiting 0, Awaiting 0],
      \<lparr>extractor = None, loadingPromise = Some 0, promises = [Rejected ''load failed'']\<rparr>)"
proof -
  have r: "run_events [Call, Settle 0 (Inl ''load failed''), Call] ([], embedder_init) =
     ([Awaiting 0, Awaiting 0],
      \<lparr>extractor = None, loadingPromise = Some 0, promises = [Rejected ''load failed'']\<rparr>)"
    by (simp add: getExtractor_def settle_def embedder_init_def)
  have "Rejected ''load failed'' \<in>
      set (promises \<lparr>extractor = None, loadingPromise = Some 0, promises = [Rejected ''load failed'']\<rparr>)"
    by simp
  from failed_load_is_permanent [OF r this, of "Inr echo_pipeline" "''text''"] r
  show ?thesis
    by (simp add: getExtractor_def settle_def)
qed

subsection \<open>The synchronisation plan\<close>






subsection \<open>The batch indexer\<close>

lemma await_served:
  "embedder_ok m \<Longrightarrow> await_getExtractor load m = (r, m') \<Longrightarrow>
     embedder_ok m' \<and> r = served load m \<and> served load m' = served load m"
  unfolding embedder_ok_def served_def
  by (cases load)
    (auto simp: await_getExtractor_def getExtractor_def await_answer_def settle_def
      embedder_init_def)

lemma generateEmbedding_served:
  assumes "embedder_ok m" and "generateEmbedding load text m = (r, m')"
  shows "embedder_ok m' \<and> served load m' = served load m \<and>
         r = (case served load m of Inl err \<Rightarrow> Inl err | Inr ext \<Rightarrow> ext text)"
proof -
  obtain r0 m0 where a: "await_getExtractor load m = (r0, m0)"
    by (cases "await_getExtractor load m")
  from await_served [OF assms(1) a] assms(2) a show ?thesis
    by (auto simp: generateEmbedding_def split: sum.splits)
qed

lemma preloadModel_served:
  assumes "embedder_ok m" and "preloadModel load m = (r, m')"
  shows "embedder_ok m' \<and> served load m' = served load m \<and>
         r = (case served load m of Inl err \<Rightarrow> Inl err | Inr ext \<Rightarrow> Inr ())"
proof -
  obtain r0 m0 where a: "await_getExtractor load m = (r0, m0)"
    by (cases "await_getExtractor load m")
  from await_served [OF assms(1) a] assms(2) a show ?thesis
    by (auto simp: preloadModel_def split: sum.splits)
qed

lemma processNote_tracker: "tracker (snd (processNote env n s)) = tracker s"
  by (simp add: processNote_def upsertNote_def Let_def split: prod.splits sum.splits option.splits)

lemma processNote_isolated:
  assumes "run_inv env st0 s" and "processNote env n s = (r, s')"
  shows "run_inv env st0 s' \<and> r = fst (processNote env n st0) \<and>
         dom (notes_table s) \<subseteq> dom (notes_table s') \<and>
         (r = Inr () \<longrightarrow> note_id n \<in> dom (notes_table s'))"
proof -
  let ?load = "pipeline_load env"
  let ?text = "prepareTextForEmbedding (note_title n) (htmlToMarkdown env (note_content n))"
  obtain e m where g: "generateEmbedding ?load ?text (model s) = (e, m)"
    by (cases "generateEmbedding ?load ?text (model s)")
  obtain e0 m0 where g0: "generateEmbedding ?load ?text (model st0) = (e0, m0)"
    by (cases "generateEmbedding ?load ?text (model st0)")
  from assms(1) have ok: "embedder_ok (model s)" and ok0: "embedder_ok (model st0)"
    and sv: "served ?load (model s) = served ?load (model st0)"
    by (simp_all add: run_inv_def)
  from generateEmbedding_served [OF ok g] generateEmbedding_served [OF ok0 g0] sv
  have m: "embedder_ok m" "served ?load m = served ?load (model st0)" "e = e0"
    by simp_all
  show ?thesis
    using assms(2) g g0 m ok0
    by (auto simp: processNote_def upsertNote_def Let_def run_inv_def
        split: sum.splits option.splits)
qed


lemma sync_note_tracker: "tracker (snd (sync_note env x s)) = tracker s"
  by (simp add: sync_note_def processNote_tracker split: sum.splits option.splits)

lemma allSettled_tracker:
  assumes "\<And>x s. tracker (snd (closure x s)) = tracker s"
  shows "tracker (snd (allSettled closure xs s)) = tracker s"
proof (induction xs arbitrary: s)
  case Nil
  then show ?case by simp
next
  case (Cons x xs)
  have "tracker (snd (allSettled closure xs (snd (closure x s)))) = tracker (snd (closure x s))"
    by (rule Cons.IH)
  then show ?case
    using assms [of x s] by (simp add: case_prod_beta)
qed

lemma allSettled_length: "length (fst (allSettled closure xs s)) = length xs"
  by (induction xs arbitrary: s) (simp_all add: case_prod_beta)

lemma count_results_eq:
  "count_results rs (p, f) =
     (p + length (filter (\<lambda>r. r = Inr ()) rs), f + length (filter (\<lambda>r. r \<noteq> Inr ()) rs))"
proof (induction rs arbitrary: p f)
  case Nil
  then show ?case by simp
next
  case (Cons r rs)
  then show ?case by (cases r) simp_all
qed

lemma count_results_sum:
  "count_results rs (p, f) = (p', f') \<Longrightarrow> p' + f' = p + f + length rs"
  using sum_length_filter_compl [of "\<lambda>r. r = Inr ()" rs]
  by (simp add: count_results_eq)

lemma updateJobProgress_row:
  assumes "job_rows tr jid = Some row" and "job_id row = jid"
  shows "job_rows (updateJobProgress jid p f tr) jid =
           Some (row\<lparr>processedCount := p, failedCount := f\<rparr>) \<and>
         progress_log (updateJobProgress jid p f tr) =
           progress_log tr @ [row\<lparr>processedCount := p, failedCount := f\<rparr>]"
  using assms by (simp add: updateJobProgress_def write_job_def)

lemma index_batches_counts:
  assumes "\<And>x s. tracker (snd (closure x s)) = tracker s"
    and "job_rows (tracker s) jid = Some row" and "job_id row = jid"
    and "processedCount row = p" and "failedCount row = f"
    and "p + f + (length items - i) = totalCount row"
    and "index_batches closure items jid i (p, f) s = ((p', f'), s')"
  shows "p' + f' = totalCount row \<and>
         job_rows (tracker s') jid = Some (row\<lparr>processedCount := p', failedCount := f'\<rparr>) \<and>
         (\<exists>new. progress_log (tracker s') = progress_log (tracker s) @ new \<and>
                (\<forall>j\<in>set new. counters_ok j))"
  using assms
proof (induction closure items jid i "(p, f)" s arbitrary: p f row rule: index_batches.induct)
  case (1 closure items jid i processed failed st)
  show ?case
  proof (cases "i < length items")
    case False
    with "1.prems" show ?thesis by (simp add: index_batches.simps)
  next
    case True
    obtain batchResults st1 where b: "allSettled closure (take BATCH_SIZE (drop i items)) st = (batchResults, st1)"
      by (cases "allSettled closure (take BATCH_SIZE (drop i items)) st")
    obtain p2 f2 where c: "count_results batchResults (processed, failed) = (p2, f2)"
      by (cases "count_results batchResults (processed, failed)")
    let ?row = "row\<lparr>processedCount := p2, failedCount := f2\<rparr>"
    let ?st2 = "st1\<lparr>tracker := updateJobProgress jid p2 f2 (tracker st1)\<rparr>"
    have tr1: "tracker st1 = tracker st"
      using allSettled_tracker [of closure "take BATCH_SIZE (drop i items)" st, OF "1.prems"(1)] b
      by simp
    have len: "length batchResults = min BATCH_SIZE (length items - i)"
      using allSettled_length [of closure "take BATCH_SIZE (drop i items)" st] b by simp
    have sum2: "p2 + f2 = processed + failed + min BATCH_SIZE (length items - i)"
      using count_results_sum [OF c] len by simp
    have upd: "job_rows (tracker ?st2) jid = Some ?row"
      "progress_log (tracker ?st2) = progress_log (tracker st) @ [?row]"
      using updateJobProgress_row [of "tracker st" jid row p2 f2] "1.prems"(2,3) tr1 by simp_all
    have rec: "index_batches closure items jid (i + BATCH_SIZE) (p2, f2) ?st2 = ((p', f'), s')"
      using "1.prems"(7) True b c by (simp add: index_batches.simps)
    have inv2: "p2 + f2 + (length items - (i + BATCH_SIZE)) = totalCount ?row"
      using sum2 "1.prems"(6) by (simp add: min_def split: if_splits)
    have ih: "p' + f' = totalCount ?row \<and>
         job_rows (tracker s') jid = Some (?row\<lparr>processedCount := p', failedCount := f'\<rparr>) \<and>
         (\<exists>new. progress_log (tracker s') = progress_log (tracker ?st2) @ new \<and>
                (\<forall>j\<in>set new. counters_ok j))"
      using "1.hyps" [OF True b [symmetric] c [symmetric] "1.prems"(1) upd(1) _ _ _ inv2 rec]
        "1.prems"(3)
      by simp
    then obtain new where new: "progress_log (tracker s') = progress_log (tracker ?st2) @ new"
      "\<forall>j\<in>set new. counters_ok j" by blast
    have "counters_ok ?row"
      using sum2 "1.prems"(6) by (simp add: counters_ok_def min_def split: if_splits)
    with new upd(2) have "progress_log (tracker s') = progress_log (tracker st) @ (?row # new) \<and>
        (\<forall>j\<in>set (?row # new). counters_ok j)" by simp
    then have "\<exists>new. progress_log (tracker s') = progress_log (tracker st) @ new \<and>
        (\<forall>j\<in>set new. counters_ok j)" by blast
    with ih show ?thesis by simp
  qed
qed


lemma createIndexingJob_row:
  assumes "createIndexingJob n tr = (jid, tr')"
  shows "job_rows tr' jid = Some \<lparr>job_id = jid, totalCount = n, processedCount = 0,
                                 failedCount = 0, job_status = ''running''\<rparr>"
    and "progress_log tr' = progress_log tr @
            [\<lparr>job_id = jid, totalCount = n, processedCount = 0, failedCount = 0,
              job_status = ''running''\<rparr>]"
  using assms by (auto simp: createIndexingJob_def write_job_def)

lemma completeJob_row:
  assumes "job_rows tr jid = Some row" and "job_id row = jid"
  shows "job_rows (completeJob jid txt tr) jid = Some (row\<lparr>job_status := txt\<rparr>) \<and>
         progress_log (completeJob jid txt tr) = progress_log tr @ [row\<lparr>job_status := txt\<rparr>]"
  using assms by (simp add: completeJob_def write_job_def)

lemma full_run_counts:
  assumes "getAllNotesWithDetails env = Inr notes"
  shows "\<exists>r st'. startFullIndexing env st = (Inr r, st') \<and>
           totalNotes r = length notes \<and>
           processedNotes r + failedNotes r = length notes \<and>
           status r = ''completed'' \<and>
           job_rows (tracker st') (jobId r) =
             Some \<lparr>job_id = jobId r, totalCount = length notes,
                   processedCount = processedNotes r, failedCount = failedNotes r,
                   job_status = ''completed''\<rparr> \<and>
           (\<exists>new. progress_log (tracker st') = progress_log (tracker st) @ new \<and>
                  (\<forall>j\<in>set new. counters_ok j))"
proof -
  obtain jid tr where cr: "createIndexingJob (length notes) (tracker st) = (jid, tr)"
    by (cases "createIndexingJob (length notes) (tracker st)")
  let ?row0 = "\<lparr>job_id = jid, totalCount = length notes, processedCount = 0,
                 failedCount = 0, job_status = ''running''\<rparr>"
  let ?s1 = "st\<lparr>tracker := tr\<rparr>"
  obtain p f s2 where lp: "index_batches (processNote env) notes jid 0 (0, 0) ?s1 = ((p, f), s2)"
    by (cases "index_batches (processNote env) notes jid 0 (0, 0) ?s1") auto
  from createIndexingJob_row [OF cr]
  have row0: "job_rows (tracker ?s1) jid = Some ?row0"
    and log0: "progress_log (tracker ?s1) = progress_log (tracker st) @ [?row0]"
    by simp_all
  have loop: "p + f = totalCount ?row0 \<and>
         job_rows (tracker s2) jid = Some (?row0\<lparr>processedCount := p, failedCount := f\<rparr>) \<and>
         (\<exists>new. progress_log (tracker s2) = progress_log (tracker ?s1) @ new \<and>
                (\<forall>j\<in>set new. counters_ok j))"
    by (rule index_batches_counts [OF processNote_tracker row0 _ _ _ _ lp]) simp_all
  then obtain new where new: "progress_log (tracker s2) = progress_log (tracker ?s1) @ new"
    "\<forall>j\<in>set new. counters_ok j" by blast
  let ?row1 = "?row0\<lparr>processedCount := p, failedCount := f\<rparr>"
  let ?s3 = "s2\<lparr>tracker := completeJob jid ''completed'' (tracker s2)\<rparr>"
  from loop have sum: "p + f = length notes" and row1: "job_rows (tracker s2) jid = Some ?row1"
    by simp_all
  from completeJob_row [OF row1, of "''completed''"]
  have fin: "job_rows (tracker ?s3) jid = Some (?row1\<lparr>job_status := ''completed''\<rparr>)"
    "progress_log (tracker ?s3) = progress_log (tracker s2) @ [?row1\<lparr>job_status := ''completed''\<rparr>]"
    by simp_all
  have res: "startFullIndexing env st =
      (Inr \<lparr>jobId = jid, totalNotes = length notes, processedNotes = p, failedNotes = f,
            status = ''completed''\<rparr>, ?s3)"
    using assms cr lp by (simp add: startFullIndexing_def Let_def)
  have "progress_log (tracker ?s3) =
      progress_log (tracker st) @ (?row0 # new @ [?row1\<lparr>job_status := ''completed''\<rparr>])"
    using fin(2) new(1) log0 by simp
  moreover have "\<forall>j\<in>set (?row0 # new @ [?row1\<lparr>job_status := ''completed''\<rparr>]). counters_ok j"
    using new(2) sum by (simp add: counters_ok_def)
  ultimately have "\<exists>new. progress_log (tracker ?s3) = progress_log (tracker st) @ new \<and>
      (\<forall>j\<in>set new. counters_ok j)" by blast
  with res fin(1) sum show ?thesis by simp
qed

lemma delete_removed_row:
  assumes "job_rows (tracker s) jid = Some row" and "job_id row = jid"
    and "processedCount row = 0" and "failedCount row = 0"
    and "delete_removed toDelete jid s = (d, s')"
  shows "d = length toDelete"
    and "job_rows (tracker s') jid = Some (row\<lparr>processedCount := length toDelete\<rparr>)"
    and "model s' = model s"
    and "\<exists>new. progress_log (tracker s') = progress_log (tracker s) @ new \<and>
                (\<forall>j\<in>set new. j = row\<lparr>processedCount := length toDelete\<rparr>)"
  using assms
  by (auto simp: delete_removed_def deleteNotesByAppleIds_def updateJobProgress_def
      write_job_def split: if_splits)

lemma sync_run_counts:
  "(\<exists>new. progress_log (tracker (snd (syncNotes env st))) = progress_log (tracker st) @ new \<and>
          (\<forall>j\<in>set new. counters_ok j)) \<and>
   (\<forall>r st'. syncNotes env st = (Inr r, st') \<longrightarrow>
      processedNotes r + failedNotes r = totalNotes r \<and>
      status r = ''completed'' \<and>
      job_rows (tracker st') (jobId r) =
         Some \<lparr>job_id = jobId r, totalCount = totalNotes r,
               processedCount = processedNotes r, failedCount = failedNotes r,
               job_status = ''completed''\<rparr>)"
proof (cases "getAllNotesSummary env")
  case (Inl err)
  then show ?thesis by (simp add: syncNotes_def)
next
  case (Inr S)
  show ?thesis
  proof (cases "getAllNoteMetadata env")
    case (Inl err)
    with Inr show ?thesis by (simp add: syncNotes_def)
  next
    case M: (Inr M)
    let ?del = "notesToDelete S M" and ?upd = "notesToUpdate S M"
    let ?n = "length ?upd + length ?del"
    obtain jid tr where cr: "createIndexingJob ?n (tracker st) = (jid, tr)"
      by (cases "createIndexingJob ?n (tracker st)")
    let ?row0 = "\<lparr>job_id = jid, totalCount = ?n, processedCount = 0,
                   failedCount = 0, job_status = ''running''\<rparr>"
    let ?s0 = "st\<lparr>tracker := tr\<rparr>"
    from createIndexingJob_row [OF cr]
    have row0: "job_rows (tracker ?s0) jid = Some ?row0"
      and log0: "progress_log (tracker ?s0) = progress_log (tracker st) @ [?row0]"
      by simp_all
    obtain d s1 where dl: "delete_removed ?del jid ?s0 = (d, s1)"
      by (cases "delete_removed ?del jid ?s0")
    let ?row1 = "?row0\<lparr>processedCount := length ?del\<rparr>"
    have d: "d = length ?del"
      by (rule delete_removed_row(1) [OF row0 _ _ _ dl]) simp_all
    have row1: "job_rows (tracker s1) jid = Some ?row1"
      by (rule delete_removed_row(2) [OF row0 _ _ _ dl]) simp_all
    have log1: "\<exists>new. progress_log (tracker s1) = progress_log (tracker ?s0) @ new \<and>
                (\<forall>j\<in>set new. j = ?row1)"
      by (rule delete_removed_row(4) [OF row0 _ _ _ dl]) simp_all
    then obtain new1 where new1: "progress_log (tracker s1) = progress_log (tracker ?s0) @ new1"
      "\<forall>j\<in>set new1. j = ?row1" by blast
    have ok1: "\<forall>j\<in>set (?row0 # new1). counters_ok j"
      using new1(2) by (auto simp: counters_ok_def)
    obtain pr s2 where pl: "preload_if_needed env ?upd s1 = (pr, s2)"
      by (cases "preload_if_needed env ?upd s1")
    have tr2: "tracker s2 = tracker s1"
      using pl by (auto simp: preload_if_needed_def split: if_splits prod.splits)
    show ?thesis
    proof (cases pr)
      case (Inl err)
      have "syncNotes env st = (Inl err, s2)"
        using Inr M cr dl pl Inl by (simp add: syncNotes_def)
      moreover have "progress_log (tracker s2) = progress_log (tracker st) @ (?row0 # new1)"
        using tr2 new1(1) log0 by simp
      ultimately show ?thesis using ok1 by auto
    next
      case u: (Inr u)
      obtain p f s3 where lp: "index_batches (sync_note env) ?upd jid 0 (d, 0) s2 = ((p, f), s3)"
        by (cases "index_batches (sync_note env) ?upd jid 0 (d, 0) s2") auto
      have row2: "job_rows (tracker s2) jid = Some ?row1" using row1 tr2 by simp
      have loop: "p + f = totalCount ?row1 \<and>
         job_rows (tracker s3) jid = Some (?row1\<lparr>processedCount := p, failedCount := f\<rparr>) \<and>
         (\<exists>new. progress_log (tracker s3) = progress_log (tracker s2) @ new \<and>
                (\<forall>j\<in>set new. counters_ok j))"
        by (rule index_batches_counts [OF sync_note_tracker row2 _ _ _ _ lp]) (simp_all add: d)
      then obtain new2 where new2: "progress_log (tracker s3) = progress_log (tracker s2) @ new2"
        "\<forall>j\<in>set new2. counters_ok j" by blast
      let ?row3 = "?row1\<lparr>processedCount := p, failedCount := f\<rparr>"
      let ?s4 = "s3\<lparr>tracker := completeJob jid ''completed'' (tracker s3)\<rparr>"
      from loop have sum: "p + f = ?n" and row3: "job_rows (tracker s3) jid = Some ?row3"
        by simp_all
      from completeJob_row [OF row3, of "''completed''"]
      have fin: "job_rows (tracker ?s4) jid = Some (?row3\<lparr>job_status := ''completed''\<rparr>)"
        "progress_log (tracker ?s4) =
           progress_log (tracker s3) @ [?row3\<lparr>job_status := ''completed''\<rparr>]"
        by simp_all
      have res: "syncNotes env st =
         (Inr \<lparr>jobId = jid, totalNotes = ?n, processedNotes = p, failedNotes = f,
               status = ''completed''\<rparr>, ?s4)"
        using Inr M cr dl pl u lp by (simp add: syncNotes_def)
      have "progress_log (tracker ?s4) = progress_log (tracker st) @
          (?row0 # new1 @ new2 @ [?row3\<lparr>job_status := ''completed''\<rparr>])"
        using fin(2) new2(1) tr2 new1(1) log0 by simp
      moreover have "\<forall>j\<in>set (?row0 # new1 @ new2 @ [?row3\<lparr>job_status := ''completed''\<rparr>]).
          counters_ok j"
        using ok1 new2(2) sum by (auto simp: counters_ok_def)
      ultimately have "\<exists>new. progress_log (tracker ?s4) = progress_log (tracker st) @ new \<and>
          (\<forall>j\<in>set new. counters_ok j)" by blast
      with res fin(1) sum show ?thesis by simp
    qed
  qed
qed


lemma allSettled_isolated:
  assumes step: "\<And>x s r s'. R s \<Longrightarrow> closure x s = (r, s') \<Longrightarrow>
      R s' \<and> r = out x \<and> dom (notes_table s) \<subseteq> dom (notes_table s') \<and>
      G x \<subseteq> dom (notes_table s')"
    and "R s" and "allSettled closure xs s = (rs, s')"
  shows "R s' \<and> rs = map out xs \<and> dom (notes_table s) \<subseteq> dom (notes_table s') \<and>
         (\<Union>x\<in>set xs. G x) \<subseteq> dom (notes_table s')"
  using assms(2,3)
proof (induction xs arbitrary: s rs s')
  case Nil
  then show ?case by simp
next
  case (Cons x xs)
  obtain r s1 where c: "closure x s = (r, s1)" by (cases "closure x s")
  obtain rs1 s2 where a: "allSettled closure xs s1 = (rs1, s2)"
    by (cases "allSettled closure xs s1")
  from step [OF Cons.prems(1) c]
  have s1: "R s1" "r = out x" "dom (notes_table s) \<subseteq> dom (notes_table s1)"
    "G x \<subseteq> dom (notes_table s1)" by simp_all
  from Cons.IH [OF s1(1) a]
  have s2: "R s2" "rs1 = map out xs" "dom (notes_table s1) \<subseteq> dom (notes_table s2)"
    "(\<Union>x\<in>set xs. G x) \<subseteq> dom (notes_table s2)" by simp_all
  have res: "rs = r # rs1" "s' = s2"
    using Cons.prems(2) c a by simp_all
  have "dom (notes_table s) \<subseteq> dom (notes_table s2)"
    using s1(3) s2(3) by (rule subset_trans)
  moreover have "G x \<subseteq> dom (notes_table s2)"
    using s1(4) s2(3) by (rule subset_trans)
  ultimately show ?case
    using res s1(2) s2(1,2,4) by simp
qed

lemma filter_take_drop:
  "length (filter P (drop i xs)) =
     length (filter P (take n (drop i xs))) + length (filter P (drop (i + n) xs))"
proof -
  have "take n (drop i xs) @ drop n (drop i xs) = drop i xs"
    by (rule append_take_drop_id)
  then have "drop i xs = take n (drop i xs) @ drop (i + n) xs"
    by (simp add: add.commute)
  then have "filter P (drop i xs) = filter P (take n (drop i xs)) @ filter P (drop (i + n) xs)"
    by (metis filter_append)
  then show ?thesis by simp
qed

lemma set_take_drop:
  "set (drop i xs) = set (take n (drop i xs)) \<union> set (drop (i + n) xs)"
proof -
  have "take n (drop i xs) @ drop n (drop i xs) = drop i xs"
    by (rule append_take_drop_id)
  then have "drop i xs = take n (drop i xs) @ drop (i + n) xs"
    by (simp add: add.commute)
  then show ?thesis by (metis set_append)
qed

lemma index_batches_isolated:
  assumes "\<And>x s r s'. R s \<Longrightarrow> closure x s = (r, s') \<Longrightarrow>
      R s' \<and> r = out x \<and> dom (notes_table s) \<subseteq> dom (notes_table s') \<and>
      G x \<subseteq> dom (notes_table s')"
    and "\<And>s tr. R s \<Longrightarrow> R (s\<lparr>tracker := tr\<rparr>)"
    and "R s" and "index_batches closure items jid i (p, f) s = ((p', f'), s')"
  shows "R s' \<and>
         p' = p + length (filter (\<lambda>x. out x = Inr ()) (drop i items)) \<and>
         f' = f + length (filter (\<lambda>x. out x \<noteq> Inr ()) (drop i items)) \<and>
         dom (notes_table s) \<subseteq> dom (notes_table s') \<and>
         (\<Union>x\<in>set (drop i items). G x) \<subseteq> dom (notes_table s')"
  using assms
proof (induction closure items jid i "(p, f)" s arbitrary: p f rule: index_batches.induct)
  case (1 closure items jid i processed failed st)
  show ?case
  proof (cases "i < length items")
    case False
    with "1.prems"(3,4) show ?thesis by (simp add: index_batches.simps)
  next
    case True
    let ?batch = "take BATCH_SIZE (drop i items)"
    obtain batchResults st1 where b: "allSettled closure ?batch st = (batchResults, st1)"
      by (cases "allSettled closure ?batch st")
    obtain p2 f2 where c: "count_results batchResults (processed, failed) = (p2, f2)"
      by (cases "count_results batchResults (processed, failed)")
    let ?st2 = "st1\<lparr>tracker := updateJobProgress jid p2 f2 (tracker st1)\<rparr>"
    from allSettled_isolated [of R closure out G, OF "1.prems"(1) "1.prems"(3) b]
    have st1: "R st1" "batchResults = map out ?batch"
      "dom (notes_table st) \<subseteq> dom (notes_table st1)"
      "(\<Union>x\<in>set ?batch. G x) \<subseteq> dom (notes_table st1)"
      by simp_all
    have st2: "R ?st2" using st1(1) by (rule "1.prems"(2))
    have cnt: "p2 = processed + length (filter (\<lambda>x. out x = Inr ()) ?batch)"
      "f2 = failed + length (filter (\<lambda>x. out x \<noteq> Inr ()) ?batch)"
      using c st1(2) by (simp_all add: count_results_eq filter_map comp_def)
    have rec: "index_batches closure items jid (i + BATCH_SIZE) (p2, f2) ?st2 = ((p', f'), s')"
      using "1.prems"(4) True b c by (simp add: index_batches.simps)
    from "1.hyps" [OF True b [symmetric] c [symmetric] "1.prems"(1) "1.prems"(2) st2 rec]
    have ih: "R s'"
      "p' = p2 + length (filter (\<lambda>x. out x = Inr ()) (drop (i + BATCH_SIZE) items))"
      "f' = f2 + length (filter (\<lambda>x. out x \<noteq> Inr ()) (drop (i + BATCH_SIZE) items))"
      "dom (notes_table ?st2) \<subseteq> dom (notes_table s')"
      "(\<Union>x\<in>set (drop (i + BATCH_SIZE) items). G x) \<subseteq> dom (notes_table s')"
      by simp_all
    have "p' = processed + length (filter (\<lambda>x. out x = Inr ()) (drop i items))"
      using ih(2) cnt(1) filter_take_drop [of "\<lambda>x. out x = Inr ()" i items BATCH_SIZE] by simp
    moreover have "f' = failed + length (filter (\<lambda>x. out x \<noteq> Inr ()) (drop i items))"
      using ih(3) cnt(2) filter_take_drop [of "\<lambda>x. out x \<noteq> Inr ()" i items BATCH_SIZE] by simp
    moreover have sub: "dom (notes_table st1) \<subseteq> dom (notes_table s')"
      using ih(4) by simp
    moreover have "dom (notes_table st) \<subseteq> dom (notes_table s')"
      using st1(3) sub by (rule subset_trans)
    moreover have "(\<Union>x\<in>set (drop i items). G x) \<subseteq> dom (notes_table s')"
    proof -
      have "(\<Union>x\<in>set ?batch. G x) \<subseteq> dom (notes_table s')"
        using st1(4) sub by (rule subset_trans)
      with ih(5) show ?thesis
        unfolding set_take_drop [of i items BATCH_SIZE] by simp
    qed
    ultimately show ?thesis using ih(1) by simp
  qed
qed


lemma run_inv_tracker: "run_inv env st0 s \<Longrightarrow> run_inv env st0 (s\<lparr>tracker := tr\<rparr>)"
  by (simp add: run_inv_def)

lemma processNote_step:
  assumes "run_inv env st0 s" and "processNote env n s = (r, s')"
  shows "run_inv env st0 s' \<and> r = fst (processNote env n st0) \<and>
         dom (notes_table s) \<subseteq> dom (notes_table s') \<and>
         (if fst (processNote env n st0) = Inr () then {note_id n} else {})
            \<subseteq> dom (notes_table s')"
  using processNote_isolated [OF assms] by simp

lemma sync_note_step:
  assumes "run_inv env st0 s" and "sync_note env x s = (r, s')"
  shows "run_inv env st0 s' \<and> r = fst (sync_note env x st0) \<and>
         dom (notes_table s) \<subseteq> dom (notes_table s') \<and>
         sync_stored env st0 x \<subseteq> dom (notes_table s')"
proof (cases "getNoteDetailsById env x")
  case (Inl err)
  with assms show ?thesis by (simp add: sync_note_def sync_stored_def)
next
  case (Inr found)
  show ?thesis
  proof (cases found)
    case None
    with Inr assms show ?thesis by (simp add: sync_note_def sync_stored_def)
  next
    case (Some details)
    with Inr assms(2) have "processNote env details s = (r, s')"
      by (simp add: sync_note_def)
    from processNote_step [OF assms(1) this] Inr Some show ?thesis
      by (simp add: sync_note_def sync_stored_def)
  qed
qed

lemma full_run_isolated:
  assumes "embedder_ok (model st)" and "getAllNotesWithDetails env = Inr notes"
    and "startFullIndexing env st = (Inr r, st')"
  shows "processedNotes r = length (filter (\<lambda>n. fst (processNote env n st) = Inr ()) notes) \<and>
         failedNotes r = length (filter (\<lambda>n. fst (processNote env n st) \<noteq> Inr ()) notes) \<and>
         (\<Union>n\<in>set notes. if fst (processNote env n st) = Inr () then {note_id n} else {})
            \<subseteq> dom (notes_table st')"
proof -
  obtain jid tr where cr: "createIndexingJob (length notes) (tracker st) = (jid, tr)"
    by (cases "createIndexingJob (length notes) (tracker st)")
  let ?s1 = "st\<lparr>tracker := tr\<rparr>"
  obtain p f s2 where lp: "index_batches (processNote env) notes jid 0 (0, 0) ?s1 = ((p, f), s2)"
    by (cases "index_batches (processNote env) notes jid 0 (0, 0) ?s1") auto
  have r0: "run_inv env st ?s1"
    using assms(1) by (simp add: run_inv_def)
  have res: "r = \<lparr>jobId = jid, totalNotes = length notes, processedNotes = p, failedNotes = f,
            status = ''completed''\<rparr>"
    "st' = s2\<lparr>tracker := completeJob jid ''completed'' (tracker s2)\<rparr>"
    using assms(2,3) cr lp by (simp_all add: startFullIndexing_def Let_def)
  from index_batches_isolated
    [of "run_inv env st" "processNote env" "\<lambda>n. fst (processNote env n st)"
        "\<lambda>n. if fst (processNote env n st) = Inr () then {note_id n} else {}",
     OF processNote_step run_inv_tracker r0 lp]
  show ?thesis
    unfolding res by simp
qed

lemma sync_run_isolated:
  assumes "embedder_ok (model st)"
    and "getAllNotesSummary env = Inr S" and "getAllNoteMetadata env = Inr M"
    and "notesToUpdate S M = [] \<or> fst (preloadModel (pipeline_load env) (model st)) = Inr ()"
  shows "\<exists>r st'. syncNotes env st = (Inr r, st') \<and>
           processedNotes r = length (notesToDelete S M) +
             length (filter (\<lambda>x. fst (sync_note env x st) = Inr ()) (notesToUpdate S M)) \<and>
           failedNotes r =
             length (filter (\<lambda>x. fst (sync_note env x st) \<noteq> Inr ()) (notesToUpdate S M)) \<and>
           (\<Union>x\<in>set (notesToUpdate S M). sync_stored env st x) \<subseteq> dom (notes_table st')"
proof -
  let ?del = "notesToDelete S M" and ?upd = "notesToUpdate S M"
  let ?n = "length ?upd + length ?del"
  obtain jid tr where cr: "createIndexingJob ?n (tracker st) = (jid, tr)"
    by (cases "createIndexingJob ?n (tracker st)")
  let ?s0 = "st\<lparr>tracker := tr\<rparr>"
  obtain d s1 where dl: "delete_removed ?del jid ?s0 = (d, s1)"
    by (cases "delete_removed ?del jid ?s0")
  have d: "d = length ?del" and m1: "model s1 = model st"
    using dl by (auto simp: delete_removed_def deleteNotesByAppleIds_def split: if_splits)
  obtain pr s2 where pl: "preload_if_needed env ?upd s1 = (pr, s2)"
    by (cases "preload_if_needed env ?upd s1")
  have pre: "pr = Inr () \<and> run_inv env st s2"
  proof (cases "?upd = []")
    case True
    with pl m1 assms(1) show ?thesis
      by (simp add: preload_if_needed_def run_inv_def)
  next
    case False
    obtain r0 m2 where pm: "preloadModel (pipeline_load env) (model st) = (r0, m2)"
      by (cases "preloadModel (pipeline_load env) (model st)")
    from preloadModel_served [OF assms(1) pm]
    have "embedder_ok m2" "served (pipeline_load env) m2 = served (pipeline_load env) (model st)"
      by simp_all
    moreover have "r0 = Inr ()" using assms(4) False pm by simp
    moreover have "pr = r0" "s2 = s1\<lparr>model := m2\<rparr>"
      using pl False pm m1 by (simp_all add: preload_if_needed_def)
    ultimately show ?thesis
      using assms(1) by (simp add: run_inv_def)
  qed
  obtain p f s3 where lp: "index_batches (sync_note env) ?upd jid 0 (d, 0) s2 = ((p, f), s3)"
    by (cases "index_batches (sync_note env) ?upd jid 0 (d, 0) s2") auto
  have res: "syncNotes env st =
         (Inr \<lparr>jobId = jid, totalNotes = ?n, processedNotes = p, failedNotes = f,
               status = ''completed''\<rparr>,
          s3\<lparr>tracker := completeJob jid ''completed'' (tracker s3)\<rparr>)"
    using assms(2,3) cr dl pl pre lp by (simp add: syncNotes_def)
  from index_batches_isolated
    [of "run_inv env st" "sync_note env" "\<lambda>x. fst (sync_note env x st)"
        "sync_stored env st", OF sync_note_step run_inv_tracker conjunct2 [OF pre] lp]
  show ?thesis
    unfolding res d by simp
qed

lemmas demo_simps =
  startFullIndexing_def syncNotes_def demo_env_def demo_state_def demo_note_def
  demo_summaries_def demo_metadata_def notesToUpdate_def notesToDelete_def needs_update_def
  appleNoteIds_def delete_removed_def deleteNotesByAppleIds_def preload_if_needed_def
  preloadModel_def sync_note_def
  createIndexingJob_def write_job_def index_batches.simps BATCH_SIZE_def processNote_def
  generateEmbedding_def await_getExtractor_def getExtractor_def await_answer_def settle_def
  embedder_init_def upsertNote_def updateJobProgress_def completeJob_def Let_def
  echo_pipeline_def reported_def

text \<open>
  C3. In every run, full or sync, and whatever the outcome of each document, every row
  the run writes to the job tracker (at creation, at each progress report and at
  completion) has \<open>processedCount + failedCount \<le> totalCount\<close>. A full run that
  obtained the list of notes returns, and in its result and in the job's row the two
  counters add up to the total exactly; so do they in the result of a sync run that
  returns.
\<close>

theorem job_counters:
  "(\<forall>j\<in>set (reported st (snd (startFullIndexing env st))).
       processedCount j + failedCount j \<le> totalCount j) \<and>
   (\<forall>j\<in>set (reported st (snd (syncNotes env st))).
       processedCount j + failedCount j \<le> totalCount j) \<and>
   (\<forall>notes. getAllNotesWithDetails env = Inr notes \<longrightarrow>
      (\<exists>r st' j. startFullIndexing env st = (Inr r, st') \<and>
         totalNotes r = length notes \<and>
         processedNotes r + failedNotes r = totalNotes r \<and>
         job_rows (tracker st') (jobId r) = Some j \<and>
         totalCount j = totalNotes r \<and> processedCount j = processedNotes r \<and>
         failedCount j = failedNotes r \<and>
         processedCount j + failedCount j = totalCount j)) \<and>
   (\<forall>r st'. syncNotes env st = (Inr r, st') \<longrightarrow>
      processedNotes r + failedNotes r = totalNotes r)"
proof -
  have full: "\<forall>j\<in>set (reported st (snd (startFullIndexing env st))). counters_ok j"
  proof (cases "getAllNotesWithDetails env")
    case (Inl err)
    then show ?thesis by (simp add: startFullIndexing_def reported_def)
  next
    case (Inr ns)
    from full_run_counts [OF Inr, of st] show ?thesis
      by (auto simp: reported_def)
  qed
  have sync: "\<forall>j\<in>set (reported st (snd (syncNotes env st))). counters_ok j"
    using sync_run_counts [of env st] by (auto simp: reported_def)
  have done_full: "\<exists>r st' j. startFullIndexing env st = (Inr r, st') \<and>
         totalNotes r = length ns \<and>
         processedNotes r + failedNotes r = totalNotes r \<and>
         job_rows (tracker st') (jobId r) = Some j \<and>
         totalCount j = totalNotes r \<and> processedCount j = processedNotes r \<and>
         failedCount j = failedNotes r \<and>
         processedCount j + failedCount j = totalCount j"
    if "getAllNotesWithDetails env = Inr ns" for ns
  proof -
    from full_run_counts [OF that, of st] obtain r st' where
      r: "startFullIndexing env st = (Inr r, st')" "totalNotes r = length ns"
        "processedNotes r + failedNotes r = length ns"
        "job_rows (tracker st') (jobId r) =
             Some \<lparr>job_id = jobId r, totalCount = length ns,
                   processedCount = processedNotes r, failedCount = failedNotes r,
                   job_status = ''completed''\<rparr>"
      by blast
    show ?thesis
      by (rule exI [of _ r], rule exI [of _ st'],
          rule exI [of _ "\<lparr>job_id = jobId r, totalCount = length ns,
                   processedCount = processedNotes r, failedCount = failedNotes r,
                   job_status = ''completed''\<rparr>"]) (simp add: r)
  qed
  have done_sync: "\<forall>r st'. syncNotes env st = (Inr r, st') \<longrightarrow>
      processedNotes r + failedNotes r = totalNotes r"
    using sync_run_counts [of env st] by simp
  show ?thesis
    using full sync done_full done_sync unfolding counters_ok_def by blast
qed

theorem job_counters_witness:
  "map (\<lambda>j. (processedCount j, failedCount j, totalCount j))
       (reported demo_state (snd (startFullIndexing demo_env demo_state))) =
     [(0, 0, 3), (2, 1, 3), (2, 1, 3)] \<and>
   map (\<lambda>j. (processedCount j, failedCount j, totalCount j))
       (reported demo_state (snd (syncNotes demo_env demo_state))) =
     [(0, 0, 3), (1, 0, 3), (2, 1, 3), (2, 1, 3)] \<and>
   fst (startFullIndexing demo_env demo_state) =
     Inr \<lparr>jobId = 1, totalNotes = 3, processedNotes = 2, failedNotes = 1,
          status = ''completed''\<rparr>"
  using job_counters [of demo_state demo_env]
  by (simp add: demo_simps)


text \<open>
  Isolation inside the batches. From a state of the embedder module that can occur, a
  full run that obtained the list of notes returns with status \<open>completed\<close>, also in the
  job's row; the notes it counts as processed are exactly those whose own processing
  succeeds (each note processed alone from the starting state), the others are counted
  as failed, and every note whose own processing succeeds is in the store afterwards,
  whatever happened to the notes before it, in its batch or in earlier batches. A sync
  run does the same once it has reached its batches, that is when its two listings
  succeed and its model pre-load succeeds (or is not needed): the deletions and the
  updates that succeed on their own are counted as processed, the other updates as
  failed. The pre-load itself is outside this result: \<open>syncNotes\<close> awaits it before the
  batches, with no handler.
\<close>

theorem failure_isolation:
  assumes "embedder_ok (model st)"
  shows
   "(\<forall>ns. getAllNotesWithDetails env = Inr ns \<longrightarrow>
      (\<exists>r st' j. startFullIndexing env st = (Inr r, st') \<and>
         status r = ''completed'' \<and>
         job_rows (tracker st') (jobId r) = Some j \<and> job_status j = ''completed'' \<and>
         processedNotes r = length (filter (\<lambda>n. fst (processNote env n st) = Inr ()) ns) \<and>
         failedNotes r = length (filter (\<lambda>n. fst (processNote env n st) \<noteq> Inr ()) ns) \<and>
         (\<forall>n\<in>set ns. fst (processNote env n st) = Inr () \<longrightarrow>
                      note_id n \<in> dom (notes_table st')))) \<and>
    (\<forall>S M. getAllNotesSummary env = Inr S \<and> getAllNoteMetadata env = Inr M \<and>
           (notesToUpdate S M = [] \<or>
            fst (preloadModel (pipeline_load env) (model st)) = Inr ()) \<longrightarrow>
      (\<exists>r st' j. syncNotes env st = (Inr r, st') \<and>
         status r = ''completed'' \<and>
         job_rows (tracker st') (jobId r) = Some j \<and> job_status j = ''completed'' \<and>
         processedNotes r = length (notesToDelete S M) +
           length (filter (\<lambda>x. fst (sync_note env x st) = Inr ()) (notesToUpdate S M)) \<and>
         failedNotes r =
           length (filter (\<lambda>x. fst (sync_note env x st) \<noteq> Inr ()) (notesToUpdate S M)) \<and>
         (\<forall>x\<in>set (notesToUpdate S M). \<forall>details.
             getNoteDetailsById env x = Inr (Some details) \<and>
             fst (processNote env details st) = Inr () \<longrightarrow>
             note_id details \<in> dom (notes_table st'))))"
proof (intro conjI allI impI)
  fix ns assume ns: "getAllNotesWithDetails env = Inr ns"
  from full_run_counts [OF ns, of st] obtain r st' where
    r: "startFullIndexing env st = (Inr r, st')" "status r = ''completed''"
      "job_rows (tracker st') (jobId r) =
             Some \<lparr>job_id = jobId r, totalCount = length ns,
                   processedCount = processedNotes r, failedCount = failedNotes r,
                   job_status = ''completed''\<rparr>"
    by blast
  from full_run_isolated [OF assms ns r(1)]
  have iso: "processedNotes r = length (filter (\<lambda>n. fst (processNote env n st) = Inr ()) ns)"
    "failedNotes r = length (filter (\<lambda>n. fst (processNote env n st) \<noteq> Inr ()) ns)"
    "(\<Union>n\<in>set ns. if fst (processNote env n st) = Inr () then {note_id n} else {})
            \<subseteq> dom (notes_table st')"
    by simp_all
  have stored: "\<forall>n\<in>set ns. fst (processNote env n st) = Inr () \<longrightarrow>
      note_id n \<in> dom (notes_table st')"
    using iso(3) by (auto split: if_splits)
  show "\<exists>r st' j. startFullIndexing env st = (Inr r, st') \<and>
         status r = ''completed'' \<and>
         job_rows (tracker st') (jobId r) = Some j \<and> job_status j = ''completed'' \<and>
         processedNotes r = length (filter (\<lambda>n. fst (processNote env n st) = Inr ()) ns) \<and>
         failedNotes r = length (filter (\<lambda>n. fst (processNote env n st) \<noteq> Inr ()) ns) \<and>
         (\<forall>n\<in>set ns. fst (processNote env n st) = Inr () \<longrightarrow>
                      note_id n \<in> dom (notes_table st'))"
    by (rule exI [of _ r], rule exI [of _ st'],
        rule exI [of _ "\<lparr>job_id = jobId r, totalCount = length ns,
                   processedCount = processedNotes r, failedCount = failedNotes r,
                   job_status = ''completed''\<rparr>"])
      (simp add: r iso(1,2) stored)
next
  fix S M
  assume h: "getAllNotesSummary env = Inr S \<and> getAllNoteMetadata env = Inr M \<and>
           (notesToUpdate S M = [] \<or>
            fst (preloadModel (pipeline_load env) (model st)) = Inr ())"
  then have S: "getAllNotesSummary env = Inr S" and M: "getAllNoteMetadata env = Inr M"
    and pre: "notesToUpdate S M = [] \<or>
            fst (preloadModel (pipeline_load env) (model st)) = Inr ()"
    by simp_all
  from sync_run_isolated [OF assms S M pre] obtain r st' where
    r: "syncNotes env st = (Inr r, st')"
      "processedNotes r = length (notesToDelete S M) +
             length (filter (\<lambda>x. fst (sync_note env x st) = Inr ()) (notesToUpdate S M))"
      "failedNotes r =
             length (filter (\<lambda>x. fst (sync_note env x st) \<noteq> Inr ()) (notesToUpdate S M))"
      "(\<Union>x\<in>set (notesToUpdate S M). sync_stored env st x) \<subseteq> dom (notes_table st')"
    by blast
  from sync_run_counts [of env st] r(1)
  have c: "status r = ''completed''"
    "job_rows (tracker st') (jobId r) =
         Some \<lparr>job_id = jobId r, totalCount = totalNotes r,
               processedCount = processedNotes r, failedCount = failedNotes r,
               job_status = ''completed''\<rparr>"
    by simp_all
  have stored: "\<forall>x\<in>set (notesToUpdate S M). \<forall>details.
             getNoteDetailsById env x = Inr (Some details) \<and>
             fst (processNote env details st) = Inr () \<longrightarrow>
             note_id details \<in> dom (notes_table st')"
  proof (intro ballI allI impI)
    fix x details
    assume x: "x \<in> set (notesToUpdate S M)"
      and d: "getNoteDetailsById env x = Inr (Some details) \<and>
             fst (processNote env details st) = Inr ()"
    then have "note_id details \<in> sync_stored env st x"
      by (simp add: sync_stored_def)
    with x r(4) show "note_id details \<in> dom (notes_table st')" by blast
  qed
  show "\<exists>r st' j. syncNotes env st = (Inr r, st') \<and>
         status r = ''completed'' \<and>
         job_rows (tracker st') (jobId r) = Some j \<and> job_status j = ''completed'' \<and>
         processedNotes r = length (notesToDelete S M) +
           length (filter (\<lambda>x. fst (sync_note env x st) = Inr ()) (notesToUpdate S M)) \<and>
         failedNotes r =
           length (filter (\<lambda>x. fst (sync_note env x st) \<noteq> Inr ()) (notesToUpdate S M)) \<and>
         (\<forall>x\<in>set (notesToUpdate S M). \<forall>details.
             getNoteDetailsById env x = Inr (Some details) \<and>
             fst (processNote env details st) = Inr () \<longrightarrow>
             note_id details \<in> dom (notes_table st'))"
    by (rule exI [of _ r], rule exI [of _ st'],
        rule exI [of _ "\<lparr>job_id = jobId r, totalCount = totalNotes r,
               processedCount = processedNotes r, failedCount = failedNotes r,
               job_status = ''completed''\<rparr>"])
      (simp add: r(1,2,3) c stored)
qed

theorem failure_isolation_witness:
  "embedder_ok (model demo_state) \<and>
   fst (startFullIndexing demo_env demo_state) =
     Inr \<lparr>jobId = 1, totalNotes = 3, processedNotes = 2, failedNotes = 1,
          status = ''completed''\<rparr> \<and>
   fst (processNote demo_env (demo_note ''A'' ''unwritable'') demo_state) = Inl ''write failed'' \<and>
   dom (notes_table (snd (startFullIndexing demo_env demo_state))) = {''B'', ''D''} \<and>
   fst (syncNotes demo_env demo_state) =
     Inr \<lparr>jobId = 1, totalNotes = 3, processedNotes = 2, failedNotes = 1,
          status = ''completed''\<rparr> \<and>
   dom (notes_table (snd (syncNotes demo_env demo_state))) = {''D''}"
proof -
  have ok: "embedder_ok (model demo_state)"
    by (simp add: demo_state_def embedder_ok_def)
  have full: "fst (startFullIndexing demo_env demo_state) =
     Inr \<lparr>jobId = 1, totalNotes = 3, processedNotes = 2, failedNotes = 1,
          status = ''completed''\<rparr>"
    "dom (notes_table (snd (startFullIndexing demo_env demo_state))) = {''B'', ''D''}"
    by (simp_all add: demo_simps) auto
  have one: "fst (processNote demo_env (demo_note ''A'' ''unwritable'') demo_state) =
      Inl ''write failed''"
    by (simp add: demo_simps)
  have sync: "fst (syncNotes demo_env demo_state) =
     Inr \<lparr>jobId = 1, totalNotes = 3, processedNotes = 2, failedNotes = 1,
          status = ''completed''\<rparr>"
    "dom (notes_table (snd (syncNotes demo_env demo_state))) = {''D''}"
    by (simp_all add: demo_simps)
  from failure_isolation [OF ok, of demo_env] ok full one sync show ?thesis
    by blast
qed

text \<open>
  C4. A run in which the embedding of every document fails, because the model cannot be
  loaded. The notes to update are \<open>A\<close> and \<open>D\<close>, and the synchronisation of each of them
  alone fails with the error of the load: a per-document embedding failure. The full run
  counts these failures, three of three documents, and returns with status \<open>completed\<close>.
  The sync run does not: after it created its job and reported the deletion, the
  \<open>await preloadModel()\<close> ahead of its batches rejects, so \<open>syncNotes\<close> rejects with the
  error of the load; no update is attempted, no failure is counted, and the row of the
  job keeps the status \<open>running\<close>, with one document processed of three.
\<close>

theorem sync_run_stops_at_failed_load:
  "map (\<lambda>x. fst (sync_note (demo_env\<lparr>pipeline_load := Inl ''load failed''\<rparr>) x demo_state))
       (notesToUpdate demo_summaries demo_metadata) =
     [Inl ''load failed'', Inl ''load failed''] \<and>
   fst (startFullIndexing (demo_env\<lparr>pipeline_load := Inl ''load failed''\<rparr>) demo_state) =
     Inr \<lparr>jobId = 1, totalNotes = 3, processedNotes = 0, failedNotes = 3,
          status = ''completed''\<rparr> \<and>
   fst (syncNotes (demo_env\<lparr>pipeline_load := Inl ''load failed''\<rparr>) demo_state) =
     Inl ''load failed'' \<and>
   reported demo_state
       (snd (syncNotes (demo_env\<lparr>pipeline_load := Inl ''load failed''\<rparr>) demo_state)) =
     [\<lparr>job_id = 1, totalCount = 3, processedCount = 0, failedCount = 0,
        job_status = ''running''\<rparr>,
      \<lparr>job_id = 1, totalCount = 3, processedCount = 1, failedCount = 0,
        job_status = ''running''\<rparr>] \<and>
   job_rows (tracker (snd (syncNotes (demo_env\<lparr>pipeline_load := Inl ''load failed''\<rparr>)
                              demo_state))) 1 =
     Some \<lparr>job_id = 1, totalCount = 3, processedCount = 1, failedCount = 0,
           job_status = ''running''\<rparr>"
  by (simp add: demo_simps reported_def)

subsection \<open>Strategy A: fusion of the result lists\<close>

lemma map_of_accumulate:
  "map_of (accumulate scores (idx, r)) key =
     (if key = result_key r then
        (case map_of scores key of
           Some existing \<Rightarrow> Some (existing\<lparr>score := score existing + 1 / real (rrf_k + idx)\<rparr>)
         | None \<Rightarrow> Some \<lparr>title = title r, content = content r, score = 1 / real (rrf_k + idx)\<rparr>)
      else map_of scores key)"
  by (simp add: accumulate_def Let_def update_conv' split: option.splits)

lemma keys_accumulate:
  "map fst (accumulate scores (idx, r)) =
     (if result_key r \<in> set (map fst scores) then map fst scores
      else map fst scores @ [result_key r])"
  by (auto simp: accumulate_def Let_def update_keys map_of_eq_None_iff split: option.splits)

lemma score_at_accumulate:
  "score_at (accumulate scores (idx, r)) key =
     score_at scores key + (if key = result_key r then 1 / real (rrf_k + idx) else 0)"
  by (simp add: score_at_def map_of_accumulate split: option.splits)

lemma set_accumulate:
  "set (accumulate scores (idx, r)) \<subseteq>
     set scores \<union> {(result_key r, e) | e. True}"
proof -
  have "set (AList.update key v scores) \<subseteq> set scores \<union> {(key, v)}" for key v
    by (induction scores) auto
  then show ?thesis
    by (fastforce simp: accumulate_def Let_def split: option.splits)
qed

lemma keyed_accumulate:
  assumes "keyed scores"
  shows "keyed (accumulate scores (idx, r))"
proof -
  have d: "distinct (map fst (accumulate scores (idx, r)))"
    using assms by (simp add: keys_accumulate keyed_def)
  have "result_key (snd p) = fst p" if "p \<in> set (accumulate scores (idx, r))" for p
  proof -
    from that d have m: "map_of (accumulate scores (idx, r)) (fst p) = Some (snd p)"
      by (metis map_of_is_SomeI prod.collapse)
    show ?thesis
    proof (cases "fst p = result_key r")
      case True
      show ?thesis
      proof (cases "map_of scores (fst p)")
        case None
        with m True have "snd p = \<lparr>title = title r, content = content r,
            score = 1 / real (rrf_k + idx)\<rparr>"
          by (simp add: map_of_accumulate)
        then show ?thesis
          by (simp add: True result_key_def)
      next
        case (Some existing)
        then have "(fst p, existing) \<in> set scores" by (rule map_of_SomeD)
        with assms have e: "result_key existing = fst p"
          by (auto simp: keyed_def list_all_iff)
        from m True Some
        have "snd p = existing\<lparr>score := score existing + 1 / real (rrf_k + idx)\<rparr>"
          by (simp add: map_of_accumulate)
        then have "result_key (snd p) = result_key existing"
          by (simp add: result_key_def)
        with e show ?thesis by simp
      qed
    next
      case False
      with m have "map_of scores (fst p) = Some (snd p)"
        by (simp add: map_of_accumulate)
      then have "(fst p, snd p) \<in> set scores" by (rule map_of_SomeD)
      with assms show ?thesis by (auto simp: keyed_def list_all_iff)
    qed
  qed
  with d show ?thesis by (simp add: keyed_def list_all_iff)
qed

lemma foldl_accumulate:
  "keyed scores \<Longrightarrow>
   keyed (foldl accumulate scores (enumerate n xs)) \<and>
   set (map fst (foldl accumulate scores (enumerate n xs))) =
     set (map fst scores) \<union> result_key ` set xs \<and>
   (\<forall>key. score_at (foldl accumulate scores (enumerate n xs)) key =
          score_at scores key + contribution n xs key)"
proof (induction xs arbitrary: scores n)
  case Nil
  then show ?case by (simp add: contribution_def)
next
  case (Cons x xs)
  let ?s = "accumulate scores (n, x)"
  have k: "keyed ?s" using Cons.prems by (rule keyed_accumulate)
  have c: "contribution n (x # xs) key =
      (if key = result_key x then 1 / real (rrf_k + n) else 0) + contribution (Suc n) xs key"
    for key
    by (simp add: contribution_def)
  from Cons.IH [OF k, of "Suc n"] show ?case
    by (auto simp: keys_accumulate score_at_accumulate c)
qed


lemma keyed_empty: "keyed []"
  by (simp add: keyed_def)

lemma fused_scores_keyed: "keyed (fused_scores V T)"
  using foldl_accumulate [OF keyed_empty, of 0 V]
    foldl_accumulate [of "forEach_accumulate V []" 0 T]
  by (simp add: fused_scores_def forEach_accumulate_def)

lemma fused_scores_keys:
  "fst ` set (fused_scores V T) = result_key ` set V \<union> result_key ` set T"
  using foldl_accumulate [OF keyed_empty, of 0 V]
    foldl_accumulate [of "forEach_accumulate V []" 0 T]
  by (simp add: fused_scores_def forEach_accumulate_def)

lemma fused_scores_score_at:
  "score_at (fused_scores V T) key = contribution 0 V key + contribution 0 T key"
  using foldl_accumulate [OF keyed_empty, of 0 V]
    foldl_accumulate [of "forEach_accumulate V []" 0 T]
  by (simp add: fused_scores_def forEach_accumulate_def score_at_def)

lemma fused_scores_entry:
  assumes "(key, e) \<in> set (fused_scores V T)"
  shows "result_key e = key \<and> map_of (fused_scores V T) key = Some e \<and>
         score e = contribution 0 V key + contribution 0 T key"
proof -
  from fused_scores_keyed [of V T] assms
  have k: "result_key e = key" and m: "map_of (fused_scores V T) key = Some e"
    by (auto simp: keyed_def list_all_iff)
  from m fused_scores_score_at [of V T key] have "score e = contribution 0 V key + contribution 0 T key"
    by (simp add: score_at_def)
  with k m show ?thesis by simp
qed


lemma contribution_Cons:
  "contribution n (x # xs) key =
     (if result_key x = key then 1 / real (rrf_k + n) else 0) + contribution (Suc n) xs key"
  by (simp add: contribution_def)


lemma rrf_fusion_take:
  "rrf_fusion V T limit = take limit (sort_by_score (map snd (fused_scores V T)))"
proof -
  have "(\<lambda>e::SearchResult. \<lparr>title = title e, content = content e, score = score e\<rparr>) =
      (\<lambda>e. e)"
  proof (rule ext)
    fix e :: SearchResult
    show "\<lparr>title = title e, content = content e, score = score e\<rparr> = e"
      by (cases e) simp
  qed
  then show ?thesis
    unfolding rrf_fusion_def by simp
qed






text \<open>Without a filter or a sort, \<open>hybridSearch\<close> returns the fusion of the two result
  lists, at the limit it was called with; and every list it returns is such a fusion.\<close>

lemma hybridSearch_fuses:
  assumes "\<not> use_advanced options"
    and "generateEmbedding (model_load env) query m = (Inr queryEmbedding, m')"
    and "vectorSearch env queryEmbedding limit = Inr V"
    and "textSearch env query limit = Inr T"
  shows "hybridSearch env query limit options m = (Inr (rrf_fusion V T limit), m')"
  using assms by (simp add: hybridSearch_def simple_hybrid_search_def)

lemma hybridSearch_results:
  assumes "\<not> use_advanced options"
    and "hybridSearch env query limit options m = (Inr results, m')"
  shows "\<exists>queryEmbedding V T.
           generateEmbedding (model_load env) query m = (Inr queryEmbedding, m') \<and>
           vectorSearch env queryEmbedding limit = Inr V \<and>
           textSearch env query limit = Inr T \<and>
           results = rrf_fusion V T limit"
  using assms
  by (auto simp add: hybridSearch_def simple_hybrid_search_def
      split: prod.splits sum.splits)

lemmas search_simps =
  hybridSearch_def simple_hybrid_search_def advancedHybridSearch_def fused_query_def
  use_advanced_def truthy_def filterConditions_def finalOrderBy_def vector_search_def
  text_search_def row_number_def folder_matches_def full_outer_join_def sql_rrf_score_def
  coalesce_def of_note_def demo_search_env_def demo_stored_env_def demo_notes_def no_options_def
  generateEmbedding_def await_getExtractor_def getExtractor_def await_answer_def settle_def
  embedder_init_def echo_pipeline_def requests_filter_or_other_sort_def

lemmas fusion_simps =
  rrf_fusion_def fused_scores_def forEach_accumulate_def accumulate_def result_key_def
  sort_by_score_def rrf_k_def doc_def stored_doc_def enumerate_eq_zip Let_def




lemma contribution_nonneg: "0 \<le> contribution n xs key"
  by (induction xs arbitrary: n) (simp_all add: contribution_Cons contribution_def)

lemma contribution_lower:
  "i < length xs \<Longrightarrow> 1 / real (rrf_k + (n + i)) \<le> contribution n xs (result_key (xs ! i))"
proof (induction xs arbitrary: n i)
  case Nil
  then show ?case by simp
next
  case (Cons x xs)
  show ?case
  proof (cases i)
    case 0
    then show ?thesis
      using contribution_nonneg [of "Suc n" xs "result_key x"]
      by (simp add: contribution_Cons)
  next
    case (Suc j)
    with Cons.prems have "j < length xs" by simp
    from Cons.IH [OF this, of "Suc n"]
    have "1 / real (rrf_k + (n + i)) \<le> contribution (Suc n) xs (result_key (xs ! j))"
      using Suc by simp
    moreover have "0 \<le> (if result_key x = result_key (xs ! j) then 1 / real (rrf_k + n) else 0)"
      by simp
    ultimately show ?thesis
      using Suc by (simp add: contribution_Cons)
  qed
qed

lemma accumulate_cong:
  "title r = title r' \<Longrightarrow> content r = content r' \<Longrightarrow>
     accumulate scores (idx, r) = accumulate scores (idx, r')"
  by (auto simp: accumulate_def result_key_def Let_def split: option.splits)

lemma foldl_accumulate_cong:
  "map (\<lambda>r. (title r, content r)) xs = map (\<lambda>r. (title r, content r)) ys \<Longrightarrow>
     foldl accumulate scores (enumerate n xs) = foldl accumulate scores (enumerate n ys)"
proof (induction xs arbitrary: ys scores n)
  case Nil
  then show ?case by simp
next
  case (Cons x xs)
  then obtain y ys' where ys: "ys = y # ys'" by (cases ys) auto
  with Cons.prems have h: "title x = title y" "content x = content y"
    "map (\<lambda>r. (title r, content r)) xs = map (\<lambda>r. (title r, content r)) ys'"
    by simp_all
  from Cons.IH [OF h(3)] accumulate_cong [OF h(1,2)] ys show ?case
    by simp
qed

lemma fused_scores_cong:
  assumes "map (\<lambda>r. (title r, content r)) V = map (\<lambda>r. (title r, content r)) V'"
    and "map (\<lambda>r. (title r, content r)) T = map (\<lambda>r. (title r, content r)) T'"
  shows "fused_scores V T = fused_scores V' T'"
  using foldl_accumulate_cong [OF assms(1), of "[]" 0]
    foldl_accumulate_cong [OF assms(2), of "forEach_accumulate V' []" 0]
  by (simp add: fused_scores_def forEach_accumulate_def)

lemma distinct_map_sort_key:
  "distinct (map g xs) \<Longrightarrow> distinct (map g (sort_key f xs))"
  by (simp add: distinct_map)

lemma rrf_fusion_distinct: "distinct (map result_key (rrf_fusion V T limit))"
proof -
  let ?es = "map snd (fused_scores V T)"
  have k: "keyed (fused_scores V T)" by (rule fused_scores_keyed)
  then have eq: "map result_key ?es = map fst (fused_scores V T)"
    by (simp add: keyed_def list_all_iff)
  from k have d: "distinct (map fst (fused_scores V T))"
    by (simp add: keyed_def)
  have "distinct (map result_key ?es)"
    by (simp only: eq d)
  then have "distinct (map result_key (sort_key (\<lambda>e. - score e) ?es))"
    by (rule distinct_map_sort_key)
  then have "distinct (take limit (map result_key (sort_key (\<lambda>e. - score e) ?es)))"
    by (rule distinct_take)
  then show ?thesis
    by (simp only: rrf_fusion_take sort_by_score_def take_map)
qed


text \<open>
  C9. Strategy A merges by the string \<open>title + "::" + content\<close> and by nothing else. When
  the dispatch of \<open>hybridSearch\<close> does not select the pushdown strategy, the query is
  embedded and the two searches return the rankings \<open>V\<close> and \<open>T\<close>, then \<open>hybridSearch\<close>
  returns the fusion of \<open>V\<close> and \<open>T\<close>, a list with no two entries of the same key; and
  every list it returns is such a fusion, of the two rankings its searches returned. The
  map of scores of the fusion has one entry per key that occurs in either ranking, the
  entry stands under its own key, and its score is the sum of the shares of all results
  with that key.
  So two results with equal title and equal content, one in each ranking, share one entry,
  whose score includes both their shares; the output has no two entries with the same
  key; and the output depends on the titles and contents of the results only: any other
  field of a result, such as the id of the stored note, plays no role.
\<close>

theorem merge_by_title_and_content:
  "(\<not> use_advanced options \<and>
    generateEmbedding (model_load env) query m = (Inr queryEmbedding, m') \<and>
    vectorSearch env queryEmbedding limit = Inr V \<and>
    textSearch env query limit = Inr T \<longrightarrow>
      hybridSearch env query limit options m = (Inr (rrf_fusion V T limit), m') \<and>
      distinct (map result_key (projr (fst (hybridSearch env query limit options m))))) \<and>
   (\<not> use_advanced options \<and>
    hybridSearch env query limit options m = (Inr results, m') \<longrightarrow>
      distinct (map result_key results) \<and>
      (\<exists>queryEmbedding' V0 T0.
          generateEmbedding (model_load env) query m = (Inr queryEmbedding', m') \<and>
          vectorSearch env queryEmbedding' limit = Inr V0 \<and>
          textSearch env query limit = Inr T0 \<and>
          results = rrf_fusion V0 T0 limit)) \<and>
   distinct (map fst (fused_scores V T)) \<and>
   fst ` set (fused_scores V T) = result_key ` set V \<union> result_key ` set T \<and>
   (\<forall>p\<in>set (fused_scores V T).
      result_key (snd p) = fst p \<and>
      score (snd p) = contribution 0 V (fst p) + contribution 0 T (fst p)) \<and>
   (\<forall>i j. i < length V \<and> j < length T \<and>
          title (V ! i) = title (T ! j) \<and> content (V ! i) = content (T ! j) \<longrightarrow>
      (\<exists>e. map_of (fused_scores V T) (result_key (V ! i)) = Some e \<and>
           map_of (fused_scores V T) (result_key (T ! j)) = Some e \<and>
           score e = contribution 0 V (result_key (V ! i)) +
                     contribution 0 T (result_key (T ! j)) \<and>
           1 / (60 + real i) + 1 / (60 + real j) \<le> score e)) \<and>
   distinct (map result_key (rrf_fusion V T limit)) \<and>
   (map (\<lambda>r. (title r, content r)) V = map (\<lambda>r. (title r, content r)) V' \<and>
    map (\<lambda>r. (title r, content r)) T = map (\<lambda>r. (title r, content r)) T' \<longrightarrow>
      rrf_fusion V T limit = rrf_fusion V' T' limit)"
proof -
  have link: "\<not> use_advanced options \<and>
    generateEmbedding (model_load env) query m = (Inr queryEmbedding, m') \<and>
    vectorSearch env queryEmbedding limit = Inr V \<and>
    textSearch env query limit = Inr T \<longrightarrow>
      hybridSearch env query limit options m = (Inr (rrf_fusion V T limit), m') \<and>
      distinct (map result_key (projr (fst (hybridSearch env query limit options m))))"
    using hybridSearch_fuses [of options env query m queryEmbedding m' limit V T]
      rrf_fusion_distinct [of V T limit]
    by simp
  have only: "\<not> use_advanced options \<and>
    hybridSearch env query limit options m = (Inr results, m') \<longrightarrow>
      distinct (map result_key results) \<and>
      (\<exists>queryEmbedding' V0 T0.
          generateEmbedding (model_load env) query m = (Inr queryEmbedding', m') \<and>
          vectorSearch env queryEmbedding' limit = Inr V0 \<and>
          textSearch env query limit = Inr T0 \<and>
          results = rrf_fusion V0 T0 limit)"
    using hybridSearch_results [of options env query limit m results m'] rrf_fusion_distinct
    by blast
  have d: "distinct (map fst (fused_scores V T))"
    using fused_scores_keyed [of V T] by (simp add: keyed_def)
  have entries: "\<forall>p\<in>set (fused_scores V T).
      result_key (snd p) = fst p \<and>
      score (snd p) = contribution 0 V (fst p) + contribution 0 T (fst p)"
    using fused_scores_entry [of _ _ V T] by auto
  have pair: "\<exists>e. map_of (fused_scores V T) (result_key (V ! i)) = Some e \<and>
           map_of (fused_scores V T) (result_key (T ! j)) = Some e \<and>
           score e = contribution 0 V (result_key (V ! i)) +
                     contribution 0 T (result_key (T ! j)) \<and>
           1 / (60 + real i) + 1 / (60 + real j) \<le> score e"
    if h: "i < length V \<and> j < length T \<and>
          title (V ! i) = title (T ! j) \<and> content (V ! i) = content (T ! j)" for i j
  proof -
    from h have key: "result_key (V ! i) = result_key (T ! j)"
      by (simp add: result_key_def)
    from h have "result_key (V ! i) \<in> fst ` set (fused_scores V T)"
      by (simp add: fused_scores_keys)
    then obtain e where e: "map_of (fused_scores V T) (result_key (V ! i)) = Some e"
      by (metis map_of_eq_None_iff not_Some_eq)
    then have "(result_key (V ! i), e) \<in> set (fused_scores V T)" by (rule map_of_SomeD)
    from fused_scores_entry [OF this]
    have sc: "score e = contribution 0 V (result_key (V ! i)) +
        contribution 0 T (result_key (V ! i))" by simp
    from h have "1 / real (rrf_k + (0 + i)) \<le> contribution 0 V (result_key (V ! i))"
      by (intro contribution_lower) simp
    moreover from h have "1 / real (rrf_k + (0 + j)) \<le> contribution 0 T (result_key (T ! j))"
      by (intro contribution_lower) simp
    ultimately have "1 / (60 + real i) + 1 / (60 + real j) \<le> score e"
      using sc key by (simp add: rrf_k_def)
    with e sc key show ?thesis by simp
  qed
  have indep: "rrf_fusion V T limit = rrf_fusion V' T' limit"
    if "map (\<lambda>r. (title r, content r)) V = map (\<lambda>r. (title r, content r)) V' \<and>
        map (\<lambda>r. (title r, content r)) T = map (\<lambda>r. (title r, content r)) T'"
  proof -
    from that have "fused_scores V T = fused_scores V' T'"
      by (intro fused_scores_cong) simp_all
    then show ?thesis by (simp add: rrf_fusion_def)
  qed
  have rest: "distinct (map fst (fused_scores V T)) \<and>
   fst ` set (fused_scores V T) = result_key ` set V \<union> result_key ` set T \<and>
   (\<forall>p\<in>set (fused_scores V T).
      result_key (snd p) = fst p \<and>
      score (snd p) = contribution 0 V (fst p) + contribution 0 T (fst p)) \<and>
   (\<forall>i j. i < length V \<and> j < length T \<and>
          title (V ! i) = title (T ! j) \<and> content (V ! i) = content (T ! j) \<longrightarrow>
      (\<exists>e. map_of (fused_scores V T) (result_key (V ! i)) = Some e \<and>
           map_of (fused_scores V T) (result_key (T ! j)) = Some e \<and>
           score e = contribution 0 V (result_key (V ! i)) +
                     contribution 0 T (result_key (T ! j)) \<and>
           1 / (60 + real i) + 1 / (60 + real j) \<le> score e)) \<and>
   distinct (map result_key (rrf_fusion V T limit)) \<and>
   (map (\<lambda>r. (title r, content r)) V = map (\<lambda>r. (title r, content r)) V' \<and>
    map (\<lambda>r. (title r, content r)) T = map (\<lambda>r. (title r, content r)) T' \<longrightarrow>
      rrf_fusion V T limit = rrf_fusion V' T' limit)"
    using d fused_scores_keys [of V T] entries pair rrf_fusion_distinct [of V T limit] indep
    by blast
  show ?thesis by (rule conjI [OF link conjI [OF only rest]])
qed

theorem merge_by_title_and_content_witness:
  "\<not> use_advanced None \<and>
   generateEmbedding (model_load demo_stored_env) ''q'' embedder_init =
     (Inr [1], \<lparr>extractor = Some echo_pipeline, loadingPromise = None,
                promises = [Resolved echo_pipeline]\<rparr>) \<and>
   vectorSearch demo_stored_env [1] 20 =
     Inr [stored_doc 1 ''Shopping'' ''milk'', stored_doc 2 ''Todo'' ''call''] \<and>
   textSearch demo_stored_env ''q'' 20 = Inr [stored_doc 3 ''Shopping'' ''milk''] \<and>
   hybridSearch demo_stored_env ''q'' 20 None embedder_init =
     (Inr [\<lparr>title = ''Shopping'', content = ''milk'', score = 1 / 30\<rparr>,
           \<lparr>title = ''Todo'', content = ''call'', score = 1 / 61\<rparr>],
      \<lparr>extractor = Some echo_pipeline, loadingPromise = None,
         promises = [Resolved echo_pipeline]\<rparr>) \<and>
   rrf_fusion [stored_doc 1 ''Shopping'' ''milk'', stored_doc 2 ''Todo'' ''call'']
              [stored_doc 3 ''Shopping'' ''milk''] 20 =
     [\<lparr>title = ''Shopping'', content = ''milk'', score = 1 / 30\<rparr>,
      \<lparr>title = ''Todo'', content = ''call'', score = 1 / 61\<rparr>] \<and>
   rrf_fusion [stored_doc 1 ''Shopping'' ''milk'', stored_doc 2 ''Todo'' ''call'']
              [stored_doc 3 ''Shopping'' ''milk''] 20 =
   rrf_fusion [stored_doc 7 ''Shopping'' ''milk'', stored_doc 7 ''Todo'' ''call'']
              [stored_doc 7 ''Shopping'' ''milk''] 20 \<and>
   rrf_fusion [stored_doc 1 ''a::b'' ''c''] [stored_doc 2 ''a'' ''b::c''] 20 =
     [\<lparr>title = ''a::b'', content = ''c'', score = 1 / 30\<rparr>]"
proof -
  have a: "\<not> use_advanced None"
    by (simp add: use_advanced_def)
  have e: "generateEmbedding (model_load demo_stored_env) ''q'' embedder_init =
     (Inr [1], \<lparr>extractor = Some echo_pipeline, loadingPromise = None,
                promises = [Resolved echo_pipeline]\<rparr>)"
    by (simp add: search_simps)
  have v: "vectorSearch demo_stored_env [1] 20 =
     Inr [stored_doc 1 ''Shopping'' ''milk'', stored_doc 2 ''Todo'' ''call'']"
    "textSearch demo_stored_env ''q'' 20 = Inr [stored_doc 3 ''Shopping'' ''milk'']"
    by (simp_all add: demo_stored_env_def)
  have r: "rrf_fusion [stored_doc 1 ''Shopping'' ''milk'', stored_doc 2 ''Todo'' ''call'']
              [stored_doc 3 ''Shopping'' ''milk''] 20 =
     [\<lparr>title = ''Shopping'', content = ''milk'', score = 1 / 30\<rparr>,
      \<lparr>title = ''Todo'', content = ''call'', score = 1 / 61\<rparr>]"
    "rrf_fusion [stored_doc 1 ''a::b'' ''c''] [stored_doc 2 ''a'' ''b::c''] 20 =
     [\<lparr>title = ''a::b'', content = ''c'', score = 1 / 30\<rparr>]"
    by (simp_all add: fusion_simps)
  have t: "map (\<lambda>r. (title r, content r))
             [stored_doc 1 ''Shopping'' ''milk'', stored_doc 2 ''Todo'' ''call''] =
           map (\<lambda>r. (title r, content r))
             [stored_doc 7 ''Shopping'' ''milk'', stored_doc 7 ''Todo'' ''call'']"
    "map (\<lambda>r. (title r, content r)) [stored_doc 3 ''Shopping'' ''milk''] =
     map (\<lambda>r. (title r, content r)) [stored_doc 7 ''Shopping'' ''milk'']"
    by (simp_all add: stored_doc_def)
  from merge_by_title_and_content
    [where options = None and env = demo_stored_env and query = "''q''"
       and m = embedder_init and queryEmbedding = "[1]" and limit = 20
       and m' = "\<lparr>extractor = Some echo_pipeline, loadingPromise = None,
                   promises = [Resolved echo_pipeline]\<rparr>"
       and V = "[stored_doc 1 ''Shopping'' ''milk'', stored_doc 2 ''Todo'' ''call'']"
       and T = "[stored_doc 3 ''Shopping'' ''milk'']"
       and V' = "[stored_doc 7 ''Shopping'' ''milk'', stored_doc 7 ''Todo'' ''call'']"
       and T' = "[stored_doc 7 ''Shopping'' ''milk'']"]
    a e v t
  have h: "hybridSearch demo_stored_env ''q'' 20 None embedder_init =
     (Inr (rrf_fusion [stored_doc 1 ''Shopping'' ''milk'', stored_doc 2 ''Todo'' ''call'']
              [stored_doc 3 ''Shopping'' ''milk''] 20),
      \<lparr>extractor = Some echo_pipeline, loadingPromise = None,
         promises = [Resolved echo_pipeline]\<rparr>)"
    "rrf_fusion [stored_doc 1 ''Shopping'' ''milk'', stored_doc 2 ''Todo'' ''call'']
              [stored_doc 3 ''Shopping'' ''milk''] 20 =
     rrf_fusion [stored_doc 7 ''Shopping'' ''milk'', stored_doc 7 ''Todo'' ''call'']
              [stored_doc 7 ''Shopping'' ''milk''] 20"
    by blast+
  from a e v h r show ?thesis by simp
qed

subsection \<open>Dispatch, ordering and the two scoring paths\<close>

text \<open>
  C6, as stated, fails: with \<open>options = {sort_by: "relevance"}\<close> no filter and no sort
  other than the default is requested, yet \<open>hybridSearch\<close> takes the fused query of
  \<open>advancedHybridSearch\<close>, and its result differs from that of the default strategy.
\<close>

theorem dispatch_counterexample:
  "use_advanced (Some (no_options\<lparr>sort_by := Some Relevance\<rparr>)) \<and>
   \<not> requests_filter_or_other_sort (Some (no_options\<lparr>sort_by := Some Relevance\<rparr>)) \<and>
   hybridSearch demo_search_env ''q'' 20 (Some (no_options\<lparr>sort_by := Some Relevance\<rparr>))
      embedder_init =
   advancedHybridSearch demo_search_env ''q'' 20 None
      (Some (no_options\<lparr>sort_by := Some Relevance\<rparr>)) embedder_init \<and>
   fst (hybridSearch demo_search_env ''q'' 20 (Some (no_options\<lparr>sort_by := Some Relevance\<rparr>))
      embedder_init) \<noteq>
   fst (simple_hybrid_search demo_search_env ''q'' 20 embedder_init)"
  by (simp add: search_simps fusion_simps)

text \<open>
  C6, amended. \<open>hybridSearch\<close> dispatches to \<open>advancedHybridSearch\<close> exactly when
  \<open>options\<close> is given and one of the four date bounds is a non-empty string, or
  \<open>has_images\<close> is given, or \<open>sort_by\<close> is given, whatever its value; otherwise it uses
  the fusion of the two result lists. This is the condition of the specification, a
  filter or a sort other than the default, extended by the case of a \<open>sort_by\<close> that
  names the default \<open>relevance\<close>.
\<close>

theorem dispatch_condition:
  "hybridSearch env query limit options m =
     (if \<exists>opts. options = Some opts \<and>
           ((\<exists>v. created_before opts = Some v \<and> v \<noteq> []) \<or>
            (\<exists>v. created_after opts = Some v \<and> v \<noteq> []) \<or>
            (\<exists>v. modified_before opts = Some v \<and> v \<noteq> []) \<or>
            (\<exists>v. modified_after opts = Some v \<and> v \<noteq> []) \<or>
            (\<exists>b. has_images opts = Some b) \<or>
            (\<exists>s. sort_by opts = Some s))
      then advancedHybridSearch env query limit None options m
      else simple_hybrid_search env query limit m) \<and>
   use_advanced options =
     (requests_filter_or_other_sort options \<or>
      (\<exists>opts. options = Some opts \<and> sort_by opts = Some Relevance))"
proof -
  have t: "truthy x = (\<exists>v. x = Some v \<and> v \<noteq> [])" for x
    by (cases x) (simp_all add: truthy_def)
  have u: "use_advanced options =
     (\<exists>opts. options = Some opts \<and>
           ((\<exists>v. created_before opts = Some v \<and> v \<noteq> []) \<or>
            (\<exists>v. created_after opts = Some v \<and> v \<noteq> []) \<or>
            (\<exists>v. modified_before opts = Some v \<and> v \<noteq> []) \<or>
            (\<exists>v. modified_after opts = Some v \<and> v \<noteq> []) \<or>
            (\<exists>b. has_images opts = Some b) \<or>
            (\<exists>s. sort_by opts = Some s)))"
    by (cases options) (auto simp: use_advanced_def t)
  have r: "use_advanced options =
     (requests_filter_or_other_sort options \<or>
      (\<exists>opts. options = Some opts \<and> sort_by opts = Some Relevance))"
  proof (cases options)
    case None
    then show ?thesis by (simp add: use_advanced_def requests_filter_or_other_sort_def)
  next
    case (Some opts)
    have "sort_by opts \<noteq> None \<longleftrightarrow>
        sort_by opts = Some CreationDate \<or> sort_by opts = Some ModificationDate \<or>
        sort_by opts = Some Relevance"
      by (cases "sort_by opts") (auto intro: sort_by_value.exhaust)
    with Some show ?thesis
      by (auto simp: use_advanced_def requests_filter_or_other_sort_def)
  qed
  show ?thesis
    unfolding hybridSearch_def u [symmetric] using r by simp
qed

theorem dispatch_condition_witness:
  "fst (hybridSearch demo_search_env ''q'' 20 None embedder_init) =
     Inr [\<lparr>title = ''D'', content = ''d'', score = 1 / 30\<rparr>,
          \<lparr>title = ''E'', content = ''e'', score = 1 / 61\<rparr>] \<and>
   fst (hybridSearch demo_search_env ''q'' 20 (Some (no_options\<lparr>created_after := Some ''''\<rparr>))
          embedder_init) =
     Inr [\<lparr>title = ''D'', content = ''d'', score = 1 / 30\<rparr>,
          \<lparr>title = ''E'', content = ''e'', score = 1 / 61\<rparr>] \<and>
   fst (hybridSearch demo_search_env ''q'' 20 (Some (no_options\<lparr>has_images := Some False\<rparr>))
          embedder_init) =
     Inr [\<lparr>title = ''D'', content = ''d'', score = 2 / 61\<rparr>] \<and>
   fst (hybridSearch demo_search_env ''q'' 20 (Some (no_options\<lparr>sort_by := Some Relevance\<rparr>))
          embedder_init) =
     Inr [\<lparr>title = ''D'', content = ''d'', score = 2 / 61\<rparr>,
          \<lparr>title = ''E'', content = ''e'', score = 1 / 62 + 1 / 10059\<rparr>]"
  using dispatch_condition [of demo_search_env "''q''" 20 None embedder_init]
  by (simp add: search_simps fusion_simps)


lemma sorted_wrt_sort_key_asc:
  "sorted_wrt (\<lambda>a b. f a \<le> f b) (sort_key f xs)"
  using sorted_sort_key [of f xs] by (simp add: sorted_map)

lemma sorted_wrt_sort_key_desc:
  fixes f :: "'a \<Rightarrow> 'b::linordered_ab_group_add"
  shows "sorted_wrt (\<lambda>a b. f b \<le> f a) (sort_key (\<lambda>x. - f x) xs)"
  using sorted_sort_key [of "\<lambda>x. - f x" xs] by (simp add: sorted_map)

lemma apply_order_sorted:
  "(case ord of
      OrderByScoreDesc \<Rightarrow> sorted_wrt (\<lambda>a b. rrf_score b \<le> rrf_score a)
    | OrderByCreation Asc \<Rightarrow> sorted_wrt (\<lambda>a b. out_creation_date a \<le> out_creation_date b)
    | OrderByCreation Desc \<Rightarrow> sorted_wrt (\<lambda>a b. out_creation_date b \<le> out_creation_date a)
    | OrderByModification Asc \<Rightarrow>
        sorted_wrt (\<lambda>a b. out_modification_date a \<le> out_modification_date b)
    | OrderByModification Desc \<Rightarrow>
        sorted_wrt (\<lambda>a b. out_modification_date b \<le> out_modification_date a))
     (take n (apply_order ord rows))"
proof (cases ord)
  case OrderByScoreDesc
  then show ?thesis
    by (simp add: sorted_wrt_take sorted_wrt_sort_key_desc)
next
  case (OrderByCreation d)
  then show ?thesis
    by (cases d) (simp_all add: sorted_wrt_take sorted_wrt_sort_key_asc sorted_wrt_sort_key_desc)
next
  case (OrderByModification d)
  then show ?thesis
    by (cases d) (simp_all add: sorted_wrt_take sorted_wrt_sort_key_asc sorted_wrt_sort_key_desc)
qed

lemma fused_query_rows:
  assumes "fused_query env qe query limit folderPath options = Inr rows"
  shows "length rows \<le> limit \<and>
    (case finalOrderBy options of
      OrderByScoreDesc \<Rightarrow> sorted_wrt (\<lambda>a b. rrf_score b \<le> rrf_score a)
    | OrderByCreation Asc \<Rightarrow> sorted_wrt (\<lambda>a b. out_creation_date a \<le> out_creation_date b)
    | OrderByCreation Desc \<Rightarrow> sorted_wrt (\<lambda>a b. out_creation_date b \<le> out_creation_date a)
    | OrderByModification Asc \<Rightarrow>
        sorted_wrt (\<lambda>a b. out_modification_date a \<le> out_modification_date b)
    | OrderByModification Desc \<Rightarrow>
        sorted_wrt (\<lambda>a b. out_modification_date b \<le> out_modification_date a)) rows"
proof -
  from assms obtain all_rows where "rows = take limit (apply_order (finalOrderBy options) all_rows)"
    by (auto simp: fused_query_def Let_def split: option.splits)
  then show ?thesis
    using apply_order_sorted [of "finalOrderBy options" limit all_rows] by simp
qed

text \<open>
  C7. When \<open>advancedHybridSearch\<close> returns, its results are the rows of the fused query
  in the order of the query, at most \<open>limit\<close> of them. With \<open>sort_by = "creation_date"\<close>
  and \<open>sort_order = "asc"\<close> the rows are in ascending order of their creation timestamp,
  whatever their fused scores; with \<open>"desc"\<close>, or no \<open>sort_order\<close>, in descending order;
  likewise for \<open>"modification_date"\<close>; and with no \<open>sort_by\<close>, or \<open>"relevance"\<close>, they are
  in descending order of the fused score.
\<close>

theorem final_ordering:
  assumes "advancedHybridSearch env query limit folderPath options m = (Inr results, m')"
  shows "\<exists>queryEmbedding rows.
     fused_query env queryEmbedding query limit folderPath options = Inr rows \<and>
     results = map (\<lambda>row. \<lparr>title = out_title row, content = out_content row,
                              score = rrf_score row\<rparr>) rows \<and>
     length rows \<le> limit \<and>
     (\<forall>opts. options = Some opts \<and> sort_by opts = Some CreationDate \<and>
             sort_order opts = Some Asc \<longrightarrow>
        sorted_wrt (\<lambda>a b. out_creation_date a \<le> out_creation_date b) rows) \<and>
     (\<forall>opts. options = Some opts \<and> sort_by opts = Some CreationDate \<and>
             (sort_order opts = Some Desc \<or> sort_order opts = None) \<longrightarrow>
        sorted_wrt (\<lambda>a b. out_creation_date b \<le> out_creation_date a) rows) \<and>
     (\<forall>opts. options = Some opts \<and> sort_by opts = Some ModificationDate \<and>
             sort_order opts = Some Asc \<longrightarrow>
        sorted_wrt (\<lambda>a b. out_modification_date a \<le> out_modification_date b) rows) \<and>
     (\<forall>opts. options = Some opts \<and> sort_by opts = Some ModificationDate \<and>
             (sort_order opts = Some Desc \<or> sort_order opts = None) \<longrightarrow>
        sorted_wrt (\<lambda>a b. out_modification_date b \<le> out_modification_date a) rows) \<and>
     (options = None \<or>
      (\<exists>opts. options = Some opts \<and> (sort_by opts = None \<or> sort_by opts = Some Relevance)) \<longrightarrow>
        sorted_wrt (\<lambda>a b. rrf_score b \<le> rrf_score a) rows)"
proof -
  from assms obtain qe rows where
    q: "fused_query env qe query limit folderPath options = Inr rows"
    and r: "results = map (\<lambda>row. \<lparr>title = out_title row, content = out_content row,
                              score = rrf_score row\<rparr>) rows"
    by (auto simp: advancedHybridSearch_def split: prod.splits sum.splits)
  from fused_query_rows [OF q]
  have len: "length rows \<le> limit"
    and ord: "(case finalOrderBy options of
      OrderByScoreDesc \<Rightarrow> sorted_wrt (\<lambda>a b. rrf_score b \<le> rrf_score a)
    | OrderByCreation Asc \<Rightarrow> sorted_wrt (\<lambda>a b. out_creation_date a \<le> out_creation_date b)
    | OrderByCreation Desc \<Rightarrow> sorted_wrt (\<lambda>a b. out_creation_date b \<le> out_creation_date a)
    | OrderByModification Asc \<Rightarrow>
        sorted_wrt (\<lambda>a b. out_modification_date a \<le> out_modification_date b)
    | OrderByModification Desc \<Rightarrow>
        sorted_wrt (\<lambda>a b. out_modification_date b \<le> out_modification_date a)) rows"
    by simp_all
  have c_asc: "sorted_wrt (\<lambda>a b. out_creation_date a \<le> out_creation_date b) rows"
    if "options = Some opts \<and> sort_by opts = Some CreationDate \<and> sort_order opts = Some Asc"
    for opts
    using ord that by (simp add: finalOrderBy_def)
  have c_desc: "sorted_wrt (\<lambda>a b. out_creation_date b \<le> out_creation_date a) rows"
    if "options = Some opts \<and> sort_by opts = Some CreationDate \<and>
        (sort_order opts = Some Desc \<or> sort_order opts = None)" for opts
    using ord that by (auto simp: finalOrderBy_def)
  have m_asc: "sorted_wrt (\<lambda>a b. out_modification_date a \<le> out_modification_date b) rows"
    if "options = Some opts \<and> sort_by opts = Some ModificationDate \<and>
        sort_order opts = Some Asc" for opts
    using ord that by (simp add: finalOrderBy_def)
  have m_desc: "sorted_wrt (\<lambda>a b. out_modification_date b \<le> out_modification_date a) rows"
    if "options = Some opts \<and> sort_by opts = Some ModificationDate \<and>
        (sort_order opts = Some Desc \<or> sort_order opts = None)" for opts
    using ord that by (auto simp: finalOrderBy_def)
  have rel: "sorted_wrt (\<lambda>a b. rrf_score b \<le> rrf_score a) rows"
    if "options = None \<or>
      (\<exists>opts. options = Some opts \<and> (sort_by opts = None \<or> sort_by opts = Some Relevance))"
    using ord that by (auto simp: finalOrderBy_def)
  show ?thesis
    using q r len c_asc c_desc m_asc m_desc rel by blast
qed

theorem final_ordering_witness:
  "advancedHybridSearch demo_search_env ''q'' 20 None
      (Some (no_options\<lparr>sort_by := Some CreationDate, sort_order := Some Asc\<rparr>)) embedder_init =
     (Inr [\<lparr>title = ''E'', content = ''e'', score = 1 / 62 + 1 / 10059\<rparr>,
           \<lparr>title = ''D'', content = ''d'', score = 2 / 61\<rparr>],
      \<lparr>extractor = Some echo_pipeline, loadingPromise = None,
        promises = [Resolved echo_pipeline]\<rparr>) \<and>
   map out_creation_date
     (projr (fused_query demo_search_env [1] ''q'' 20 None
        (Some (no_options\<lparr>sort_by := Some CreationDate, sort_order := Some Asc\<rparr>)))) =
     [100, 200]"
proof -
  have a: "advancedHybridSearch demo_search_env ''q'' 20 None
      (Some (no_options\<lparr>sort_by := Some CreationDate, sort_order := Some Asc\<rparr>)) embedder_init =
     (Inr [\<lparr>title = ''E'', content = ''e'', score = 1 / 62 + 1 / 10059\<rparr>,
           \<lparr>title = ''D'', content = ''d'', score = 2 / 61\<rparr>],
      \<lparr>extractor = Some echo_pipeline, loadingPromise = None,
        promises = [Resolved echo_pipeline]\<rparr>)"
    by (simp add: search_simps)
  have b: "map out_creation_date
     (projr (fused_query demo_search_env [1] ''q'' 20 None
        (Some (no_options\<lparr>sort_by := Some CreationDate, sort_order := Some Asc\<rparr>)))) =
     [100, 200]"
    by (simp add: search_simps)
  from final_ordering [OF a] a b show ?thesis by blast
qed

text \<open>
  C2. The two paths do not compute the same score. The client-side fusion adds
  \<open>1 / (60 + idx)\<close> with the index of \<open>forEach\<close>, which counts from 0; the fused query
  adds \<open>1 / (60 + rank)\<close> with the rank of \<open>ROW_NUMBER()\<close>, which counts from 1. For the
  same store and query, the note that is first in both rankings scores \<open>1 / 30\<close> in
  \<open>hybridSearch\<close> without options and \<open>2 / 61\<close> in \<open>advancedHybridSearch\<close>; and at all
  positions \<open>r\<close> and \<open>s\<close> (from 0) the score of the fused query is the smaller one.
\<close>

theorem rank_convention_differs:
  "fst (simple_hybrid_search demo_search_env ''q'' 20 embedder_init) =
     Inr [\<lparr>title = ''D'', content = ''d'', score = 1 / 30\<rparr>,
          \<lparr>title = ''E'', content = ''e'', score = 1 / 61\<rparr>] \<and>
   fst (advancedHybridSearch demo_search_env ''q'' 20 None None embedder_init) =
     Inr [\<lparr>title = ''D'', content = ''d'', score = 2 / 61\<rparr>,
          \<lparr>title = ''E'', content = ''e'', score = 1 / 62 + 1 / 10059\<rparr>] \<and>
   map fst (enumerate 0 results) = [0..<length results] \<and>
   map snd (row_number rows) = [1..<Suc (length rows)] \<and>
   sql_rrf_score (Some (Suc r)) (Some (Suc s)) < 1 / real (rrf_k + r) + 1 / real (rrf_k + s)"
proof -
  have a: "fst (simple_hybrid_search demo_search_env ''q'' 20 embedder_init) =
     Inr [\<lparr>title = ''D'', content = ''d'', score = 1 / 30\<rparr>,
          \<lparr>title = ''E'', content = ''e'', score = 1 / 61\<rparr>]"
    by (simp add: search_simps fusion_simps)
  have b: "fst (advancedHybridSearch demo_search_env ''q'' 20 None None embedder_init) =
     Inr [\<lparr>title = ''D'', content = ''d'', score = 2 / 61\<rparr>,
          \<lparr>title = ''E'', content = ''e'', score = 1 / 62 + 1 / 10059\<rparr>]"
    by (simp add: search_simps)
  have c: "map fst (enumerate 0 results) = [0..<length results]"
    by (simp add: enumerate_eq_zip)
  have d: "map snd (row_number rows) = [1..<Suc (length rows)]"
    by (simp add: row_number_def)
  have "1 / real (61 + r) < 1 / real (60 + r)" "1 / real (61 + s) < 1 / real (60 + s)"
    by (simp_all add: frac_less2)
  then have e: "sql_rrf_score (Some (Suc r)) (Some (Suc s)) <
      1 / real (rrf_k + r) + 1 / real (rrf_k + s)"
    by (simp add: sql_rrf_score_def coalesce_def rrf_k_def add.commute)
  from a b c d e show ?thesis by blast
qed

end
